theory Spec2Isabelle
  imports Complex_Main
begin

section \<open>The KMedoids object (kmedoids\_algorithm.hpp, kmedoids\_algorithm.cpp)\<close>

text \<open>
  C++ exceptions and the process exit of \<open>fit\<close> are values: a member function that can
  throw returns \<open>exn + 'a\<close>, with \<open>Inl\<close> for the exception that leaves the function.
  \<^item> \<open>unrecognized_algorithm\<close>: \<^verbatim>\<open>throw "unrecognized algorithm"\<close> in \<open>checkAlgorithm\<close>;
  \<^item> \<open>invalid_argument m\<close>: \<^verbatim>\<open>std::invalid_argument(m)\<close>;
  \<^item> \<open>out_of_range\<close>: \<^verbatim>\<open>std::out_of_range\<close> of \<^verbatim>\<open>std::string::at\<close>;
  \<^item> \<open>index_out_of_bounds\<close>: the bounds check of Armadillo's element and column access;
  \<^item> \<open>logic_error\<close>: Armadillo's argument checks (norm type 0, \<open>max\<close> or \<open>min\<close> of an
    object with no elements, \<open>randperm\<close> asked for more elements than there are);
  \<^item> \<open>process_exit c\<close>: \<^verbatim>\<open>exit(c)\<close>;
  \<^item> \<open>not_a_number\<close>: a floating-point result that is no real number (the division
    \<open>0/0\<close>, a difference with an infinite operand). The source raises nothing there and
    goes on with NaN or an infinity; the model does not follow that arithmetic and
    ends the run with this value.
\<close>

datatype exn =
    unrecognized_algorithm
  | invalid_argument string
  | out_of_range
  | index_out_of_bounds
  | logic_error
  | process_exit nat
  | not_a_number

text \<open>The two member-function pointers of the class, as tags of the functions they can hold.\<close>

datatype lossFn_ptr = ptr_LP | ptr_LINF | ptr_cos | ptr_manhattan

datatype fitFn_ptr = ptr_fit_bpam | ptr_fit_naive

text \<open>
  The fields of \<open>class KMedoids\<close> that the functions below read or write. A pointer that
  the constructor leaves unset is \<open>None\<close>. \<open>cout\<close> is the standard output of the
  process, one entry per line written.
\<close>

record KMedoids =
  n_medoids :: nat
  algorithm :: string
  max_iter :: nat
  buildConfidence :: nat
  swapConfidence :: nat
  verbosity :: nat
  logFilename :: string
  lossFn :: "lossFn_ptr option"
  lp :: nat
  fitFn :: "fitFn_ptr option"
  cout :: "string list"

subsection \<open>checkAlgorithm and the constructor\<close>

definition checkAlgorithm :: "string \<Rightarrow> KMedoids \<Rightarrow> exn + KMedoids" where
  "checkAlgorithm alg km =
     (if alg = ''BanditPAM'' then Inr (km\<lparr>fitFn := Some ptr_fit_bpam\<rparr>)
      else if alg = ''naive'' then Inr (km\<lparr>fitFn := Some ptr_fit_naive\<rparr>)
      else Inl unrecognized_algorithm)"

text \<open>
  The constructor stores its arguments and calls \<open>checkAlgorithm\<close>. \<open>lossFn\<close> and \<open>lp\<close> are
  not initialised by it: \<open>lp0\<close> stands for whatever value \<open>lp\<close> holds.
\<close>

definition KMedoids_ctor ::
  "nat \<Rightarrow> string \<Rightarrow> nat \<Rightarrow> nat \<Rightarrow> nat \<Rightarrow> nat \<Rightarrow> string \<Rightarrow> nat \<Rightarrow> exn + KMedoids" where
  "KMedoids_ctor n_med alg verb mx bc sc logf lp0 =
     checkAlgorithm alg
       \<lparr>n_medoids = n_med, algorithm = alg, max_iter = mx, buildConfidence = bc,
        swapConfidence = sc, verbosity = verb, logFilename = logf,
        lossFn = None, lp = lp0, fitFn = None, cout = []\<rparr>"

subsection \<open>setLossFn\<close>

text \<open>\<^verbatim>\<open>std::isdigit\<close> on a character of the string: the ten ASCII digits.\<close>

definition isdigit :: "char \<Rightarrow> bool" where
  "isdigit c = (48 \<le> (of_char c :: nat) \<and> (of_char c :: nat) \<le> 57)"

text \<open>
  \<^verbatim>\<open>std::regex_match(loss, std::regex("L\\d*"))\<close>: the whole string is an \<open>L\<close> followed by
  any number of digits, none included.
\<close>

fun regex_match_L_digits :: "string \<Rightarrow> bool" where
  "regex_match_L_digits [] = False"
| "regex_match_L_digits (c # cs) = (c = CHR ''L'' \<and> list_all isdigit cs)"

text \<open>
  \<^verbatim>\<open>atoi(loss.c_str())\<close> where the string starts with a digit, the only place the source
  calls it: the value of the leading run of digits. (C leaves \<open>atoi\<close> undefined when that
  value does not fit an \<open>int\<close>; the model gives the mathematical value.)
\<close>

definition atoi :: "string \<Rightarrow> nat" where
  "atoi s = foldl (\<lambda>n c. 10 * n + (of_char c - 48)) 0 (takeWhile isdigit s)"

text \<open>Lines 121 to 123: a name of the form \<open>L\<close>digits loses its first character.\<close>

definition strip_L :: "string \<Rightarrow> string" where
  "strip_L loss = (if regex_match_L_digits loss then drop 1 loss else loss)"

text \<open>
  The body of the \<^verbatim>\<open>try\<close> block. \<^verbatim>\<open>loss.at(0)\<close> throws \<open>out_of_range\<close> on the empty
  string; the last branch throws \<open>invalid_argument\<close>.
\<close>

definition setLossFn_try :: "string \<Rightarrow> KMedoids \<Rightarrow> exn + KMedoids" where
  "setLossFn_try loss km =
     (if loss = ''manhattan'' then Inr (km\<lparr>lossFn := Some ptr_manhattan\<rparr>)
      else if loss = ''cos'' then Inr (km\<lparr>lossFn := Some ptr_cos\<rparr>)
      else if loss = ''inf'' then Inr (km\<lparr>lossFn := Some ptr_LINF\<rparr>)
      else (case loss of
              [] \<Rightarrow> Inl out_of_range
            | c # _ \<Rightarrow>
                if isdigit c then Inr (km\<lparr>lossFn := Some ptr_LP, lp := atoi loss\<rparr>)
                else Inl (invalid_argument ''error: unrecognized loss function'')))"

text \<open>
  The \<^verbatim>\<open>catch (std::invalid_argument& e)\<close> handler prints \<open>e.what()\<close> and lets the function
  return normally; any other exception leaves \<open>setLossFn\<close>.
\<close>

definition setLossFn :: "string \<Rightarrow> KMedoids \<Rightarrow> exn + KMedoids" where
  "setLossFn loss km =
     (case setLossFn_try (strip_L loss) km of
        Inl (invalid_argument what) \<Rightarrow> Inr (km\<lparr>cout := cout km @ [what]\<rparr>)
      | Inl e \<Rightarrow> Inl e
      | Inr km' \<Rightarrow> Inr km')"

subsection \<open>Matrices, vectors and the Armadillo operations the loss functions use\<close>

text \<open>
  An \<^verbatim>\<open>arma::mat\<close>: its two dimensions and its elements, \<open>mem m r c\<close> being the element in
  row \<open>r\<close> and column \<open>c\<close>. Doubles are real numbers here: rounding is outside the model.
  Only the elements inside the dimensions are ever read.
\<close>

record mat =
  n_rows :: nat
  n_cols :: nat
  mem :: "nat \<Rightarrow> nat \<Rightarrow> real"

text \<open>\<^verbatim>\<open>data.col(i)\<close>, with Armadillo's bounds check.\<close>

definition col :: "mat \<Rightarrow> nat \<Rightarrow> exn + real list" where
  "col data i =
     (if i < n_cols data then Inr (map (\<lambda>r. mem data r i) [0..<n_rows data])
      else Inl index_out_of_bounds)"

text \<open>The difference of two columns (of the same matrix, hence of the same length).\<close>

definition vec_minus :: "real list \<Rightarrow> real list \<Rightarrow> real list" where
  "vec_minus x y = map2 (\<lambda>a b. a - b) x y"

definition arma_abs :: "real list \<Rightarrow> real list" where
  "arma_abs v = map abs v"

definition arma_accu :: "real list \<Rightarrow> real" where
  "arma_accu v = sum_list v"

definition arma_dot :: "real list \<Rightarrow> real list \<Rightarrow> real" where
  "arma_dot x y = sum_list (map2 (\<lambda>a b. a * b) x y)"

text \<open>The \<open>p\<close>-norm of a vector, \<open>(\<Sum> |x|\<^sup>p)\<^sup>1\<^sup>/\<^sup>p\<close>.\<close>

definition vec_norm_k :: "real list \<Rightarrow> nat \<Rightarrow> real" where
  "vec_norm_k v p = root p (\<Sum>x\<leftarrow>v. \<bar>x\<bar> ^ p)"

text \<open>
  \<^verbatim>\<open>arma::norm(v, p)\<close> on a vector: 0 for the empty vector, an error for norm type 0,
  the \<open>p\<close>-norm otherwise. \<^verbatim>\<open>arma::norm(v)\<close> is the 2-norm.
\<close>

definition arma_norm :: "real list \<Rightarrow> nat \<Rightarrow> exn + real" where
  "arma_norm v p =
     (if v = [] then Inr 0
      else if p = 0 then Inl logic_error
      else Inr (vec_norm_k v p))"

text \<open>\<^verbatim>\<open>arma::max(v)\<close>: an error on a vector with no elements.\<close>

definition arma_max :: "real list \<Rightarrow> exn + real" where
  "arma_max v = (if v = [] then Inl logic_error else Inr (Max (set v)))"

subsection \<open>The loss functions\<close>

text \<open>\<open>LP\<close> reads the member \<open>lp\<close>, passed here as the first argument.\<close>

definition LP :: "nat \<Rightarrow> mat \<Rightarrow> nat \<Rightarrow> nat \<Rightarrow> exn + real" where
  "LP p data i j =
     (case col data i of Inl e \<Rightarrow> Inl e | Inr x \<Rightarrow>
       (case col data j of Inl e \<Rightarrow> Inl e | Inr y \<Rightarrow>
          arma_norm (vec_minus x y) p))"

text \<open>
  \<open>cos\<close> divides the dot product by the product of the two 2-norms. When that product
  is 0 a column is the zero vector, the dot product is 0 too, and the double division
  \<open>0/0\<close> gives NaN.
\<close>

definition cos_loss :: "mat \<Rightarrow> nat \<Rightarrow> nat \<Rightarrow> exn + real" where
  "cos_loss data i j =
     (case col data i of Inl e \<Rightarrow> Inl e | Inr x \<Rightarrow>
       (case col data j of Inl e \<Rightarrow> Inl e | Inr y \<Rightarrow>
          if vec_norm_k x 2 * vec_norm_k y 2 = 0 then Inl not_a_number
          else Inr (arma_dot x y / (vec_norm_k x 2 * vec_norm_k y 2))))"

definition manhattan :: "mat \<Rightarrow> nat \<Rightarrow> nat \<Rightarrow> exn + real" where
  "manhattan data i j =
     (case col data i of Inl e \<Rightarrow> Inl e | Inr x \<Rightarrow>
       (case col data j of Inl e \<Rightarrow> Inl e | Inr y \<Rightarrow>
          Inr (arma_accu (arma_abs (vec_minus x y)))))"

definition LINF :: "mat \<Rightarrow> nat \<Rightarrow> nat \<Rightarrow> exn + real" where
  "LINF data i j =
     (case col data i of Inl e \<Rightarrow> Inl e | Inr x \<Rightarrow>
       (case col data j of Inl e \<Rightarrow> Inl e | Inr y \<Rightarrow>
          arma_max (arma_abs (vec_minus x y))))"

text \<open>The call \<^verbatim>\<open>(this->*lossFn)(data, i, j)\<close> for each function the pointer can hold.\<close>

fun call_lossFn :: "lossFn_ptr \<Rightarrow> nat \<Rightarrow> mat \<Rightarrow> nat \<Rightarrow> nat \<Rightarrow> exn + real" where
  "call_lossFn ptr_LP p = LP p"
| "call_lossFn ptr_LINF p = LINF"
| "call_lossFn ptr_cos p = cos_loss"
| "call_lossFn ptr_manhattan p = manhattan"

subsection \<open>fit\<close>

text \<open>
  \<open>fit\<close> first loads a Python module and calls a function of it: when the module is not
  found the process exits with status 1 (\<open>module_found\<close> tells which); the call itself is
  not modelled. It then prints a line, sets the loss function, checks the algorithm
  again and runs the fit function selected. \<open>fit_bpam\<close> and \<open>fit_naive\<close> are defined
  outside this file: \<open>run\<close> stands for them. The log written when \<open>verbosity > 0\<close> is not
  modelled.
\<close>

definition fit ::
  "(fitFn_ptr \<Rightarrow> mat \<Rightarrow> KMedoids \<Rightarrow> exn + KMedoids) \<Rightarrow> bool \<Rightarrow> mat \<Rightarrow> string \<Rightarrow> KMedoids
     \<Rightarrow> exn + KMedoids" where
  "fit run module_found input_data loss km =
     (if \<not> module_found then Inl (process_exit 1)
      else
        case setLossFn loss (km\<lparr>cout := cout km @ [''Works fine till here'']\<rparr>) of
          Inl e \<Rightarrow> Inl e
        | Inr km1 \<Rightarrow>
            (case checkAlgorithm (algorithm km1) km1 of
               Inl e \<Rightarrow> Inl e
             | Inr km2 \<Rightarrow>
                 (case fitFn km2 of
                    None \<Rightarrow> Inl unrecognized_algorithm
                  | Some f \<Rightarrow> run f input_data km2)))"

subsection \<open>Distances that can be infinite\<close>

text \<open>
  \<open>calc_best_distances_swap\<close> and \<open>calc_loss\<close> start their minima at
  \<^verbatim>\<open>std::numeric_limits<double>::infinity()\<close>, so the distance vectors hold a real number or
  \<open>+\<infinity>\<close>. The order is that of the doubles: every real is below \<open>PInf\<close>.
\<close>

datatype ext = Fin real | PInf

instantiation ext :: linorder
begin

fun less_eq_ext :: "ext \<Rightarrow> ext \<Rightarrow> bool" where
  "less_eq_ext (Fin a) (Fin b) = (a \<le> b)"
| "less_eq_ext (Fin a) PInf = True"
| "less_eq_ext PInf (Fin b) = False"
| "less_eq_ext PInf PInf = True"

fun less_ext :: "ext \<Rightarrow> ext \<Rightarrow> bool" where
  "less_ext (Fin a) (Fin b) = (a < b)"
| "less_ext (Fin a) PInf = True"
| "less_ext PInf (Fin b) = False"
| "less_ext PInf PInf = False"

instance
proof
  fix x y z :: ext
  show "(x < y) = (x \<le> y \<and> \<not> y \<le> x)"
    by (cases x; cases y) auto
  show "x \<le> x"
    by (cases x) auto
  show "x \<le> y \<Longrightarrow> y \<le> z \<Longrightarrow> x \<le> z"
    by (cases x; cases y; cases z) auto
  show "x \<le> y \<Longrightarrow> y \<le> x \<Longrightarrow> x = y"
    by (cases x; cases y) auto
  show "x \<le> y \<or> y \<le> x"
    by (cases x; cases y) auto
qed

end

text \<open>The sum of two such doubles (\<^verbatim>\<open>total += cost\<close>).\<close>

fun ext_plus :: "ext \<Rightarrow> ext \<Rightarrow> ext" where
  "ext_plus (Fin a) (Fin b) = Fin (a + b)"
| "ext_plus (Fin a) PInf = PInf"
| "ext_plus PInf y = PInf"

text \<open>
  The difference (\<^verbatim>\<open>sample(j) -= best_distances(...)\<close>), stored in a vector of reals:
  with an infinite operand the double result is \<open>-\<infinity>\<close>, \<open>+\<infinity>\<close> or NaN, which
  the model reports as \<open>not_a_number\<close>.
\<close>

fun ext_minus :: "ext \<Rightarrow> ext \<Rightarrow> exn + real" where
  "ext_minus (Fin a) (Fin b) = Inr (a - b)"
| "ext_minus (Fin a) PInf = Inl not_a_number"
| "ext_minus PInf y = Inl not_a_number"

subsection \<open>Element access and the standard deviation\<close>

text \<open>\<open>v(i)\<close> on an Armadillo vector, read and written, with the bounds check.\<close>

definition vec_at :: "'a list \<Rightarrow> nat \<Rightarrow> exn + 'a" where
  "vec_at v i = (if i < length v then Inr (v ! i) else Inl index_out_of_bounds)"

definition vec_set :: "'a list \<Rightarrow> nat \<Rightarrow> 'a \<Rightarrow> exn + 'a list" where
  "vec_set v i x = (if i < length v then Inr (v[i := x]) else Inl index_out_of_bounds)"

text \<open>\<open>sigma(k, n) = x\<close> on a matrix.\<close>

definition mat_set :: "mat \<Rightarrow> nat \<Rightarrow> nat \<Rightarrow> real \<Rightarrow> exn + mat" where
  "mat_set m k n x =
     (if k < n_rows m \<and> n < n_cols m
      then Inr (m\<lparr>mem := (mem m)(k := (mem m k)(n := x))\<rparr>)
      else Inl index_out_of_bounds)"

definition arma_mean :: "real list \<Rightarrow> real" where
  "arma_mean xs = sum_list xs / real (length xs)"

text \<open>
  \<^verbatim>\<open>arma::stddev(sample)\<close> with the default normalisation: the square root of the sum of
  squared deviations from the mean over \<open>n - 1\<close>, and 0 for fewer than two elements.
\<close>

definition stddev :: "real list \<Rightarrow> real" where
  "stddev xs =
     (if 2 \<le> length xs
      then sqrt ((\<Sum>x\<leftarrow>xs. (x - arma_mean xs)\<^sup>2) / real (length xs - 1))
      else 0)"

subsection \<open>calc\_best\_distances\_swap\<close>

text \<open>
  In the four functions below \<open>loss_fn\<close> is the function the member pointer \<open>lossFn\<close> holds, and a
  \<^verbatim>\<open>for\<close> loop over \<open>0 \<le> k < n\<close> is a recursion over the list \<open>[0..<n]\<close> of its indices.
  The medoid indices and the assignments, doubles in the source, are naturals. The loop
  over the points of \<open>calc_best_distances_swap\<close> is a \<^verbatim>\<open>#pragma omp parallel for\<close> loop
  whose iterations share no variable (\<open>best\<close> and \<open>second\<close> are declared in its body,
  and iteration \<open>i\<close> writes entry \<open>i\<close> of the three vectors only), so it is run in index
  order. The parallel loops of \<open>build_sigma\<close> and \<open>swap_sigma\<close> share the vector
  \<open>sample\<close> and are modelled with the order in which their iterations take their steps.
\<close>

text \<open>The loop over the medoids for one point \<open>i\<close>, on \<open>(assignments, best, second)\<close>.\<close>

fun best_second_loop ::
  "(mat \<Rightarrow> nat \<Rightarrow> nat \<Rightarrow> exn + real) \<Rightarrow> mat \<Rightarrow> nat list \<Rightarrow> nat \<Rightarrow> nat list
     \<Rightarrow> nat list \<times> ext \<times> ext \<Rightarrow> exn + nat list \<times> ext \<times> ext" where
  "best_second_loop loss_fn data medoid_indices i [] st = Inr st"
| "best_second_loop loss_fn data medoid_indices i (k # ks) (assignments, best, second) =
     (case vec_at medoid_indices k of Inl e \<Rightarrow> Inl e | Inr m \<Rightarrow>
       (case loss_fn data m i of Inl e \<Rightarrow> Inl e | Inr cost \<Rightarrow>
          if Fin cost < best then
            (case vec_set assignments i k of Inl e \<Rightarrow> Inl e | Inr assignments' \<Rightarrow>
               best_second_loop loss_fn data medoid_indices i ks (assignments', Fin cost, best))
          else if Fin cost < second then
            best_second_loop loss_fn data medoid_indices i ks (assignments, best, Fin cost)
          else
            best_second_loop loss_fn data medoid_indices i ks (assignments, best, second)))"

text \<open>The loop over the points, on \<open>(best_distances, second_distances, assignments)\<close>.\<close>

fun points_loop ::
  "(mat \<Rightarrow> nat \<Rightarrow> nat \<Rightarrow> exn + real) \<Rightarrow> mat \<Rightarrow> nat list \<Rightarrow> nat list
     \<Rightarrow> ext list \<times> ext list \<times> nat list \<Rightarrow> exn + ext list \<times> ext list \<times> nat list" where
  "points_loop loss_fn data medoid_indices [] st = Inr st"
| "points_loop loss_fn data medoid_indices (i # rest)
       (best_distances, second_distances, assignments) =
     (case best_second_loop loss_fn data medoid_indices i [0..<length medoid_indices]
             (assignments, PInf, PInf) of
        Inl e \<Rightarrow> Inl e
      | Inr (assignments', best, second) \<Rightarrow>
         (case vec_set best_distances i best of Inl e \<Rightarrow> Inl e | Inr best_distances' \<Rightarrow>
           (case vec_set second_distances i second of Inl e \<Rightarrow> Inl e
            | Inr second_distances' \<Rightarrow>
                points_loop loss_fn data medoid_indices rest
                  (best_distances', second_distances', assignments'))))"

definition calc_best_distances_swap ::
  "(mat \<Rightarrow> nat \<Rightarrow> nat \<Rightarrow> exn + real) \<Rightarrow> mat \<Rightarrow> nat list \<Rightarrow> ext list \<Rightarrow> ext list \<Rightarrow> nat list
     \<Rightarrow> exn + ext list \<times> ext list \<times> nat list" where
  "calc_best_distances_swap loss_fn data medoid_indices best_distances second_distances
       assignments =
     points_loop loss_fn data medoid_indices [0..<n_cols data]
       (best_distances, second_distances, assignments)"

subsection \<open>calc\_loss\<close>

text \<open>The loop over \<open>k < n_medoids\<close> for one point, on \<open>cost\<close>.\<close>

fun min_cost_loop ::
  "(mat \<Rightarrow> nat \<Rightarrow> nat \<Rightarrow> exn + real) \<Rightarrow> mat \<Rightarrow> nat list \<Rightarrow> nat \<Rightarrow> nat list \<Rightarrow> ext
     \<Rightarrow> exn + ext" where
  "min_cost_loop loss_fn data medoid_indices i [] cost = Inr cost"
| "min_cost_loop loss_fn data medoid_indices i (k # ks) cost =
     (case vec_at medoid_indices k of Inl e \<Rightarrow> Inl e | Inr m \<Rightarrow>
       (case loss_fn data m i of Inl e \<Rightarrow> Inl e | Inr currCost \<Rightarrow>
          if Fin currCost < cost
          then min_cost_loop loss_fn data medoid_indices i ks (Fin currCost)
          else min_cost_loop loss_fn data medoid_indices i ks cost))"

text \<open>The loop over the points, on \<open>tot\<close>, the variable \<open>total\<close>; \<open>n_med\<close> is the member \<open>n_medoids\<close>.\<close>

fun total_loop ::
  "(mat \<Rightarrow> nat \<Rightarrow> nat \<Rightarrow> exn + real) \<Rightarrow> nat \<Rightarrow> mat \<Rightarrow> nat list \<Rightarrow> nat list \<Rightarrow> ext
     \<Rightarrow> exn + ext" where
  "total_loop loss_fn n_med data medoid_indices [] tot = Inr tot"
| "total_loop loss_fn n_med data medoid_indices (i # rest) tot =
     (case min_cost_loop loss_fn data medoid_indices i [0..<n_med] PInf of
        Inl e \<Rightarrow> Inl e
      | Inr cost \<Rightarrow> total_loop loss_fn n_med data medoid_indices rest (ext_plus tot cost))"

definition calc_loss ::
  "(mat \<Rightarrow> nat \<Rightarrow> nat \<Rightarrow> exn + real) \<Rightarrow> nat \<Rightarrow> mat \<Rightarrow> nat list \<Rightarrow> exn + ext" where
  "calc_loss loss_fn n_med data medoid_indices =
     total_loop loss_fn n_med data medoid_indices [0..<n_cols data] (Fin 0)"

subsection \<open>build\_sigma\<close>

text \<open>
  \<open>randperm\<close> stands for the random generator: \<open>randperm N M\<close> is what the call
  \<^verbatim>\<open>arma::randperm(N, M)\<close> returns, for Armadillo \<open>M\<close> distinct indices below \<open>N\<close>
  (and an error when \<open>M > N\<close>). The vector \<open>sample\<close> is declared once, before the loop
  over the candidates, with \<open>batch_size\<close> elements; \<open>sample_mem\<close> gives its initial
  contents.
\<close>

text \<open>The loop over \<open>j < batch_size\<close> for one candidate \<open>i\<close>, on \<open>sample\<close>.\<close>

fun build_sample_loop ::
  "(mat \<Rightarrow> nat \<Rightarrow> nat \<Rightarrow> exn + real) \<Rightarrow> mat \<Rightarrow> ext list \<Rightarrow> nat list \<Rightarrow> bool \<Rightarrow> nat
     \<Rightarrow> nat list \<Rightarrow> real list \<Rightarrow> exn + real list" where
  "build_sample_loop loss_fn data best_distances tmp_refs use_absolute i [] sample =
     Inr sample"
| "build_sample_loop loss_fn data best_distances tmp_refs use_absolute i (j # js) sample =
     (case vec_at tmp_refs j of Inl e \<Rightarrow> Inl e | Inr ref \<Rightarrow>
       (case loss_fn data i ref of Inl e \<Rightarrow> Inl e | Inr cost \<Rightarrow>
          if use_absolute then
            (case vec_set sample j cost of Inl e \<Rightarrow> Inl e | Inr sample' \<Rightarrow>
               build_sample_loop loss_fn data best_distances tmp_refs use_absolute i js
                 sample')
          else
            (case vec_at best_distances ref of Inl e \<Rightarrow> Inl e | Inr bd \<Rightarrow>
              (case ext_minus (if Fin cost < bd then Fin cost else bd) bd of
                 Inl e \<Rightarrow> Inl e
               | Inr x \<Rightarrow>
                  (case vec_set sample j x of Inl e \<Rightarrow> Inl e | Inr sample' \<Rightarrow>
                     build_sample_loop loss_fn data best_distances tmp_refs use_absolute i
                       js sample')))))"

text \<open>
  The loop over the candidates is a \<^verbatim>\<open>#pragma omp parallel for\<close> loop: its iterations
  are run by several threads at the same time, and all of them write and read the one
  vector \<open>sample\<close>. An iteration goes through \<open>batch_size + 1\<close> steps: step \<open>pc\<close>, for
  \<open>pc < batch_size\<close>, is the pass \<open>j = pc\<close> of its inner loop, and step \<open>batch_size\<close> is
  \<^verbatim>\<open>sigma(i) = arma::stddev(sample)\<close>. (The program can interleave more finely still,
  inside a pass.)
\<close>

definition build_iteration_step ::
  "(mat \<Rightarrow> nat \<Rightarrow> nat \<Rightarrow> exn + real) \<Rightarrow> mat \<Rightarrow> ext list \<Rightarrow> nat list \<Rightarrow> nat \<Rightarrow> bool
     \<Rightarrow> nat \<Rightarrow> nat \<Rightarrow> real list \<times> real list \<Rightarrow> exn + real list \<times> real list" where
  "build_iteration_step loss_fn data best_distances tmp_refs batch_size use_absolute i pc st =
     (case st of (sigma, sample) \<Rightarrow>
        if pc < batch_size then
          (case build_sample_loop loss_fn data best_distances tmp_refs use_absolute i [pc]
                  sample of
             Inl e \<Rightarrow> Inl e
           | Inr sample' \<Rightarrow> Inr (sigma, sample'))
        else if pc = batch_size then
          (case vec_set sigma i (stddev sample) of
             Inl e \<Rightarrow> Inl e
           | Inr sigma' \<Rightarrow> Inr (sigma', sample))
        else Inr (sigma, sample))"

text \<open>
  \<open>schedule\<close> is the order the OpenMP runtime gives to the steps: each entry names the
  iteration that takes its next step. \<open>pcs ! i\<close> counts the steps iteration \<open>i\<close> has
  taken; an entry for an iteration that has finished, or that does not exist, does
  nothing.
\<close>

fun build_interleave ::
  "(mat \<Rightarrow> nat \<Rightarrow> nat \<Rightarrow> exn + real) \<Rightarrow> mat \<Rightarrow> ext list \<Rightarrow> nat list \<Rightarrow> nat \<Rightarrow> bool
     \<Rightarrow> nat list \<Rightarrow> nat list \<times> real list \<times> real list
     \<Rightarrow> exn + nat list \<times> real list \<times> real list" where
  "build_interleave loss_fn data best_distances tmp_refs batch_size use_absolute [] st =
     Inr st"
| "build_interleave loss_fn data best_distances tmp_refs batch_size use_absolute
       (i # schedule) (pcs, sigma, sample) =
     (if i < length pcs then
        (case build_iteration_step loss_fn data best_distances tmp_refs batch_size
                use_absolute i (pcs ! i) (sigma, sample) of
           Inl e \<Rightarrow> Inl e
         | Inr (sigma', sample') \<Rightarrow>
             build_interleave loss_fn data best_distances tmp_refs batch_size use_absolute
               schedule (pcs[i := Suc (pcs ! i)], sigma', sample'))
      else
        build_interleave loss_fn data best_distances tmp_refs batch_size use_absolute
          schedule (pcs, sigma, sample))"

text \<open>
  The loop ends when every iteration has finished: after the schedule, each iteration
  takes the steps it has left, in index order. So the empty schedule is the loop run one
  iteration after the other, and every interleaving of the iterations is the run of some
  schedule.
\<close>

fun build_finish ::
  "(mat \<Rightarrow> nat \<Rightarrow> nat \<Rightarrow> exn + real) \<Rightarrow> mat \<Rightarrow> ext list \<Rightarrow> nat list \<Rightarrow> nat \<Rightarrow> bool
     \<Rightarrow> nat list \<Rightarrow> nat list \<times> real list \<times> real list
     \<Rightarrow> exn + nat list \<times> real list \<times> real list" where
  "build_finish loss_fn data best_distances tmp_refs batch_size use_absolute [] st = Inr st"
| "build_finish loss_fn data best_distances tmp_refs batch_size use_absolute (i # rest)
       (pcs, sigma, sample) =
     (case build_sample_loop loss_fn data best_distances tmp_refs use_absolute i
             [pcs ! i..<batch_size] sample of
        Inl e \<Rightarrow> Inl e
      | Inr sample' \<Rightarrow>
          if pcs ! i \<le> batch_size then
            (case vec_set sigma i (stddev sample') of
               Inl e \<Rightarrow> Inl e
             | Inr sigma' \<Rightarrow>
                 build_finish loss_fn data best_distances tmp_refs batch_size use_absolute
                   rest (pcs[i := Suc batch_size], sigma', sample'))
          else
            build_finish loss_fn data best_distances tmp_refs batch_size use_absolute rest
              (pcs, sigma, sample'))"

text \<open>
  After the loop the function takes the minimum, the quartiles, the maximum and the mean
  of \<open>sigma\<close> for the log, which Armadillo refuses on a vector with no elements. The
  line pushed to the logger is not modelled.
\<close>

definition build_sigma ::
  "(mat \<Rightarrow> nat \<Rightarrow> nat \<Rightarrow> exn + real) \<Rightarrow> (nat \<Rightarrow> nat \<Rightarrow> exn + nat list) \<Rightarrow> (nat \<Rightarrow> real)
     \<Rightarrow> nat list \<Rightarrow> mat \<Rightarrow> ext list \<Rightarrow> real list \<Rightarrow> nat \<Rightarrow> bool \<Rightarrow> exn + real list" where
  "build_sigma loss_fn randperm sample_mem schedule data best_distances sigma batch_size
       use_absolute =
     (case randperm (n_cols data) batch_size of Inl e \<Rightarrow> Inl e | Inr tmp_refs \<Rightarrow>
       (case build_interleave loss_fn data best_distances tmp_refs batch_size use_absolute
               schedule
               (replicate (n_cols data) 0, sigma, map sample_mem [0..<batch_size]) of
          Inl e \<Rightarrow> Inl e
        | Inr st \<Rightarrow>
           (case build_finish loss_fn data best_distances tmp_refs batch_size use_absolute
                   [0..<n_cols data] st of
              Inl e \<Rightarrow> Inl e
            | Inr (pcs, sigma', sample') \<Rightarrow>
                if sigma' = [] then Inl logic_error else Inr sigma')))"

subsection \<open>swap\_sigma\<close>

text \<open>The loop over \<open>j < batch_size\<close> for one arm \<open>(k, n)\<close>, on \<open>sample\<close>.\<close>

fun swap_sample_loop ::
  "(mat \<Rightarrow> nat \<Rightarrow> nat \<Rightarrow> exn + real) \<Rightarrow> mat \<Rightarrow> ext list \<Rightarrow> ext list \<Rightarrow> nat list \<Rightarrow> nat list
     \<Rightarrow> nat \<Rightarrow> nat \<Rightarrow> nat list \<Rightarrow> real list \<Rightarrow> exn + real list" where
  "swap_sample_loop loss_fn data best_distances second_best_distances assignments tmp_refs
       n k [] sample = Inr sample"
| "swap_sample_loop loss_fn data best_distances second_best_distances assignments tmp_refs
       n k (j # js) sample =
     (case vec_at tmp_refs j of Inl e \<Rightarrow> Inl e | Inr ref \<Rightarrow>
       (case loss_fn data n ref of Inl e \<Rightarrow> Inl e | Inr cost \<Rightarrow>
         (case vec_at assignments ref of Inl e \<Rightarrow> Inl e | Inr a \<Rightarrow>
           (case (if k = a
                  then (case vec_at second_best_distances ref of Inl e \<Rightarrow> Inl e
                        | Inr sd \<Rightarrow> Inr (if Fin cost < sd then Fin cost else sd))
                  else (case vec_at best_distances ref of Inl e \<Rightarrow> Inl e
                        | Inr bd \<Rightarrow> Inr (if Fin cost < bd then Fin cost else bd))) of
              Inl e \<Rightarrow> Inl e
            | Inr v \<Rightarrow>
               (case vec_at best_distances ref of Inl e \<Rightarrow> Inl e | Inr bd \<Rightarrow>
                 (case ext_minus v bd of Inl e \<Rightarrow> Inl e | Inr x \<Rightarrow>
                   (case vec_set sample j x of Inl e \<Rightarrow> Inl e | Inr sample' \<Rightarrow>
                      swap_sample_loop loss_fn data best_distances second_best_distances
                        assignments tmp_refs n k js sample')))))))"

text \<open>
  The loop over the flat indices \<open>i < K * N\<close> is a \<^verbatim>\<open>#pragma omp parallel for\<close> loop
  too, on the one vector \<open>sample\<close>, and is modelled as the candidate loop of
  \<open>build_sigma\<close> is: the steps of iteration \<open>i\<close> are the passes of its inner loop for
  the arm \<open>(i mod K, i div K)\<close> and then \<^verbatim>\<open>sigma(k, n) = arma::stddev(sample)\<close>.
\<close>

definition swap_iteration_step ::
  "(mat \<Rightarrow> nat \<Rightarrow> nat \<Rightarrow> exn + real) \<Rightarrow> mat \<Rightarrow> ext list \<Rightarrow> ext list \<Rightarrow> nat list \<Rightarrow> nat list
     \<Rightarrow> nat \<Rightarrow> nat \<Rightarrow> nat \<Rightarrow> nat \<Rightarrow> mat \<times> real list \<Rightarrow> exn + mat \<times> real list" where
  "swap_iteration_step loss_fn data best_distances second_best_distances assignments
       tmp_refs batch_size K i pc st =
     (case st of (sigma, sample) \<Rightarrow>
        if pc < batch_size then
          (case swap_sample_loop loss_fn data best_distances second_best_distances
                  assignments tmp_refs (i div K) (i mod K) [pc] sample of
             Inl e \<Rightarrow> Inl e
           | Inr sample' \<Rightarrow> Inr (sigma, sample'))
        else if pc = batch_size then
          (case mat_set sigma (i mod K) (i div K) (stddev sample) of
             Inl e \<Rightarrow> Inl e
           | Inr sigma' \<Rightarrow> Inr (sigma', sample))
        else Inr (sigma, sample))"

fun swap_interleave ::
  "(mat \<Rightarrow> nat \<Rightarrow> nat \<Rightarrow> exn + real) \<Rightarrow> mat \<Rightarrow> ext list \<Rightarrow> ext list \<Rightarrow> nat list \<Rightarrow> nat list
     \<Rightarrow> nat \<Rightarrow> nat \<Rightarrow> nat list \<Rightarrow> nat list \<times> mat \<times> real list
     \<Rightarrow> exn + nat list \<times> mat \<times> real list" where
  "swap_interleave loss_fn data best_distances second_best_distances assignments tmp_refs
       batch_size K [] st = Inr st"
| "swap_interleave loss_fn data best_distances second_best_distances assignments tmp_refs
       batch_size K (i # schedule) (pcs, sigma, sample) =
     (if i < length pcs then
        (case swap_iteration_step loss_fn data best_distances second_best_distances
                assignments tmp_refs batch_size K i (pcs ! i) (sigma, sample) of
           Inl e \<Rightarrow> Inl e
         | Inr (sigma', sample') \<Rightarrow>
             swap_interleave loss_fn data best_distances second_best_distances assignments
               tmp_refs batch_size K schedule (pcs[i := Suc (pcs ! i)], sigma', sample'))
      else
        swap_interleave loss_fn data best_distances second_best_distances assignments
          tmp_refs batch_size K schedule (pcs, sigma, sample))"

fun swap_finish ::
  "(mat \<Rightarrow> nat \<Rightarrow> nat \<Rightarrow> exn + real) \<Rightarrow> mat \<Rightarrow> ext list \<Rightarrow> ext list \<Rightarrow> nat list \<Rightarrow> nat list
     \<Rightarrow> nat \<Rightarrow> nat \<Rightarrow> nat list \<Rightarrow> nat list \<times> mat \<times> real list
     \<Rightarrow> exn + nat list \<times> mat \<times> real list" where
  "swap_finish loss_fn data best_distances second_best_distances assignments tmp_refs
       batch_size K [] st = Inr st"
| "swap_finish loss_fn data best_distances second_best_distances assignments tmp_refs
       batch_size K (i # rest) (pcs, sigma, sample) =
     (case swap_sample_loop loss_fn data best_distances second_best_distances assignments
             tmp_refs (i div K) (i mod K) [pcs ! i..<batch_size] sample of
        Inl e \<Rightarrow> Inl e
      | Inr sample' \<Rightarrow>
          if pcs ! i \<le> batch_size then
            (case mat_set sigma (i mod K) (i div K) (stddev sample') of
               Inl e \<Rightarrow> Inl e
             | Inr sigma' \<Rightarrow>
                 swap_finish loss_fn data best_distances second_best_distances assignments
                   tmp_refs batch_size K rest (pcs[i := Suc batch_size], sigma', sample'))
          else
            swap_finish loss_fn data best_distances second_best_distances assignments
              tmp_refs batch_size K rest (pcs, sigma, sample'))"

definition swap_sigma ::
  "(mat \<Rightarrow> nat \<Rightarrow> nat \<Rightarrow> exn + real) \<Rightarrow> (nat \<Rightarrow> nat \<Rightarrow> exn + nat list) \<Rightarrow> (nat \<Rightarrow> real)
     \<Rightarrow> nat list \<Rightarrow> mat \<Rightarrow> mat \<Rightarrow> nat \<Rightarrow> ext list \<Rightarrow> ext list \<Rightarrow> nat list \<Rightarrow> exn + mat" where
  "swap_sigma loss_fn randperm sample_mem schedule data sigma batch_size best_distances
       second_best_distances assignments =
     (case randperm (n_cols data) batch_size of Inl e \<Rightarrow> Inl e | Inr tmp_refs \<Rightarrow>
       (case swap_interleave loss_fn data best_distances second_best_distances assignments
               tmp_refs batch_size (n_rows sigma) schedule
               (replicate (n_rows sigma * n_cols data) 0, sigma,
                map sample_mem [0..<batch_size]) of
          Inl e \<Rightarrow> Inl e
        | Inr st \<Rightarrow>
           (case swap_finish loss_fn data best_distances second_best_distances assignments
                   tmp_refs batch_size (n_rows sigma) [0..<n_rows sigma * n_cols data]
                   st of
              Inl e \<Rightarrow> Inl e
            | Inr (pcs, sigma', sample') \<Rightarrow> Inr sigma')))"

section \<open>The specification's vocabulary and example data\<close>

text \<open>
  The loss-name grammar as the specification writes it,
  \<^verbatim>\<open>manhattan | cos | inf | L?<digit>+\<close>. It is not taken from the code, which tests
  the name differently (\<open>setLossFn\<close> above).
\<close>

definition spec_loss_grammar :: "string \<Rightarrow> bool" where
  "spec_loss_grammar s =
     (s = ''manhattan'' \<or> s = ''cos'' \<or> s = ''inf'' \<or>
      (case s of
         [] \<Rightarrow> False
       | c # cs \<Rightarrow> if c = CHR ''L'' then cs \<noteq> [] \<and> list_all isdigit cs
                  else list_all isdigit (c # cs)))"

text \<open>
  An element of a distance vector where there is one, \<open>+\<infinity>\<close> past its end: the
  \<open>k\<close>-th smallest of fewer than \<open>k + 1\<close> distances is \<open>+\<infinity>\<close>.
\<close>

definition nth_or_PInf :: "real list \<Rightarrow> nat \<Rightarrow> ext" where
  "nth_or_PInf xs k = (if k < length xs then Fin (xs ! k) else PInf)"

text \<open>
  The object the constructor builds from the default arguments of the header (with
  \<open>lp\<close> holding 0).
\<close>

definition km_default :: KMedoids where
  "km_default =
     \<lparr>n_medoids = 5, algorithm = ''BanditPAM'', max_iter = 1000, buildConfidence = 1000,
      swapConfidence = 10000, verbosity = 0, logFilename = ''KMedoidsLogfile'',
      lossFn = None, lp = 0, fitFn = Some ptr_fit_bpam, cout = []\<rparr>"

text \<open>The matrix with \<open>d\<close> rows whose columns are the given lists.\<close>

definition mat_of_cols :: "nat \<Rightarrow> real list list \<Rightarrow> mat" where
  "mat_of_cols d cols = \<lparr>n_rows = d, n_cols = length cols, mem = (\<lambda>r c. cols ! c ! r)\<rparr>"

text \<open>Two points of the plane, \<open>(3, 4)\<close> and \<open>(4, 3)\<close>.\<close>

definition X_34 :: mat where
  "X_34 = mat_of_cols 2 [[3, 4], [4, 3]]"

text \<open>A fit function that returns at once, to run \<open>fit\<close> on an example.\<close>

definition run_nothing :: "fitFn_ptr \<Rightarrow> mat \<Rightarrow> KMedoids \<Rightarrow> exn + KMedoids" where
  "run_nothing f input_data km = Inr km"

text \<open>
  The position of the medoid nearest to point \<open>i\<close>, the lowest position where several
  medoids are equally near; \<open>d m i\<close> is the distance from medoid \<open>m\<close> to point \<open>i\<close>.
\<close>

definition nearest_medoid :: "(nat \<Rightarrow> nat \<Rightarrow> real) \<Rightarrow> nat list \<Rightarrow> nat \<Rightarrow> nat \<Rightarrow> bool" where
  "nearest_medoid d M i a =
     (a < length M \<and>
      (\<forall>k<length M. d (M ! a) i \<le> d (M ! k) i) \<and>
      (\<forall>k<a. d (M ! a) i < d (M ! k) i))"


text \<open>
  The invariants of the two loops of \<open>calc_best_distances_swap\<close>. After the medoids
  at positions below \<open>k\<close>, \<open>a\<close> is the first position of the least cost and \<open>b\<close> that
  cost; after point \<open>i\<close>, its three entries are final.
\<close>

definition first_min :: "(nat \<Rightarrow> real) \<Rightarrow> nat \<Rightarrow> nat \<Rightarrow> ext \<Rightarrow> bool" where
  "first_min cost k a b =
     ((k = 0 \<and> b = PInf) \<or>
      (a < k \<and> b = Fin (cost a) \<and> (\<forall>j<k. cost a \<le> cost j) \<and> (\<forall>j<a. cost a < cost j)))"


definition point_done ::
  "(nat \<Rightarrow> nat \<Rightarrow> real) \<Rightarrow> nat list \<Rightarrow> nat \<Rightarrow> ext \<Rightarrow> ext \<Rightarrow> nat \<Rightarrow> bool" where
  "point_done d M i b s a =
     (b = nth_or_PInf (sort (map (\<lambda>m. d m i) M)) 0 \<and>
      s = nth_or_PInf (sort (map (\<lambda>m. d m i) M)) 1 \<and>
      first_min (\<lambda>k. d (M ! k) i) (length M) a b)"


text \<open>Three points on a line, at 0, 1 and 5, and their distances.\<close>

definition X_line :: mat where
  "X_line = mat_of_cols 1 [[0], [1], [5]]"

definition d_line :: "nat \<Rightarrow> nat \<Rightarrow> real" where
  "d_line m i = \<bar>[0, 1, 5] ! m - [0, 1, 5] ! i\<bar>"

text \<open>
  The reward samples as the specification writes them, for a candidate \<open>c\<close> of BUILD and
  for an arm \<open>(k, n)\<close> of SWAP, at the reference point \<open>j\<close>: \<open>d\<close> is the distance, \<open>db j\<close>
  the best distance \<open>d1[j]\<close>. The minimum of a real and a distance that can be \<open>+\<infinity>\<close> is
  a real.
\<close>

definition build_reward ::
  "bool \<Rightarrow> (nat \<Rightarrow> nat \<Rightarrow> real) \<Rightarrow> (nat \<Rightarrow> real) \<Rightarrow> nat \<Rightarrow> nat \<Rightarrow> real" where
  "build_reward use_absolute d db c j =
     (if use_absolute then d c j else min (d c j) (db j) - db j)"

fun ext_min_real :: "real \<Rightarrow> ext \<Rightarrow> real" where
  "ext_min_real c (Fin x) = min c x"
| "ext_min_real c PInf = c"

definition swap_reward ::
  "(nat \<Rightarrow> nat \<Rightarrow> real) \<Rightarrow> (nat \<Rightarrow> real) \<Rightarrow> ext list \<Rightarrow> nat list \<Rightarrow> nat \<Rightarrow> nat \<Rightarrow> nat \<Rightarrow> real" where
  "swap_reward d db second_best_distances assignments k n j =
     (if assignments ! j = k then ext_min_real (d n j) (second_best_distances ! j)
      else min (d n j) (db j)) - db j"

text \<open>
  Example data for the two sigma functions: a generator that draws the reference points
  2, 0, 1; the best distances of the points of \<open>X_line\<close> to the medoids 0 and 2; a
  \<open>2 \<times> 3\<close> matrix for \<open>sigma\<close>.
\<close>

definition draw_201 :: "nat \<Rightarrow> nat \<Rightarrow> exn + nat list" where
  "draw_201 N M = Inr [2, 0, 1]"

definition d1_line :: "nat \<Rightarrow> real" where
  "d1_line j = [0, 1, 0] ! j"

definition sigma_2x3 :: mat where
  "sigma_2x3 = mat_of_cols 2 [[9, 9], [9, 9], [9, 9]]"

text \<open>
  More example data for the two sigma functions: a vector \<open>sample\<close> that starts with
  zeros, the draw 2, 0, 1 as a vector, and for the points of \<open>X_line\<close> with the medoids
  0 and 2 their best distances, second-best distances and assignments.
\<close>

definition zero_mem :: "nat \<Rightarrow> real" where
  "zero_mem j = 0"

definition refs_line :: "nat list" where
  "refs_line = [2, 0, 1]"

definition best_line :: "ext list" where
  "best_line = [Fin 0, Fin 1, Fin 0]"

definition second_line :: "ext list" where
  "second_line = [Fin 5, Fin 4, Fin 5]"

definition assign_line :: "nat list" where
  "assign_line = [0, 0, 1]"

text \<open>The entry \<open>(k, n)\<close> of the matrix a call of \<open>swap_sigma\<close> returns.\<close>

definition sigma_entry :: "nat \<Rightarrow> nat \<Rightarrow> exn + mat \<Rightarrow> exn + real" where
  "sigma_entry k n r = (case r of Inl e \<Rightarrow> Inl e | Inr sigma \<Rightarrow> Inr (mem sigma k n))"

section \<open>The order of the extended distances\<close>

lemma ext_less_simps:
  "(Fin a < Fin b) = (a < b)" "Fin a < PInf" "\<not> PInf < x"
  by (cases x; simp)+

lemma ext_le_simps:
  "(Fin a \<le> Fin b) = (a \<le> b)" "x \<le> PInf" "(PInf \<le> x) = (x = PInf)"
  by (cases x; simp)+

section \<open>Algorithm names\<close>

lemma KMedoids_ctor_default:
  "KMedoids_ctor 5 ''BanditPAM'' 0 1000 1000 10000 ''KMedoidsLogfile'' 0 = Inr km_default"
  by (simp add: KMedoids_ctor_def checkAlgorithm_def km_default_def)

lemma setLossFn_algorithm: "setLossFn loss km = Inr km' \<Longrightarrow> algorithm km' = algorithm km"
  by (auto simp: setLossFn_def setLossFn_try_def
      split: sum.splits exn.splits if_splits list.splits)

lemma fit_unrecognized_algorithm:
  assumes "setLossFn loss (km\<lparr>cout := cout km @ [''Works fine till here'']\<rparr>) = Inr km1"
    and "algorithm km \<notin> {''BanditPAM'', ''naive''}"
  shows "fit run True data loss km = Inl unrecognized_algorithm"
proof -
  have "algorithm km1 = algorithm km"
    using setLossFn_algorithm[OF assms(1)] by simp
  then have "checkAlgorithm (algorithm km1) km1 = Inl unrecognized_algorithm"
    using assms(2) by (simp add: checkAlgorithm_def)
  then show ?thesis
    using assms(1) by (simp add: fit_def)
qed

text \<open>
  C9. For an algorithm name other than \<open>BanditPAM\<close> and \<open>naive\<close>, \<open>checkAlgorithm\<close> throws
  the unrecognized-algorithm error, and so do the constructor and, once the loss function
  is set, \<open>fit\<close>, which checks the stored name again. For the two names no error is
  raised and the pointer \<open>fitFn\<close> is set to the matching fit function.
\<close>

theorem checkAlgorithm_names:
  "(alg \<notin> {''BanditPAM'', ''naive''} \<longrightarrow>
      checkAlgorithm alg km = Inl unrecognized_algorithm \<and>
      KMedoids_ctor n alg v mi bc sc lf lp0 = Inl unrecognized_algorithm \<and>
      (algorithm km = alg \<and>
       setLossFn loss (km\<lparr>cout := cout km @ [''Works fine till here'']\<rparr>) = Inr km1 \<longrightarrow>
         fit run True data loss km = Inl unrecognized_algorithm)) \<and>
   checkAlgorithm ''BanditPAM'' km = Inr (km\<lparr>fitFn := Some ptr_fit_bpam\<rparr>) \<and>
   checkAlgorithm ''naive'' km = Inr (km\<lparr>fitFn := Some ptr_fit_naive\<rparr>) \<and>
   (\<exists>km'. KMedoids_ctor n ''BanditPAM'' v mi bc sc lf lp0 = Inr km' \<and>
          fitFn km' = Some ptr_fit_bpam) \<and>
   (\<exists>km'. KMedoids_ctor n ''naive'' v mi bc sc lf lp0 = Inr km' \<and>
          fitFn km' = Some ptr_fit_naive)"
proof -
  have "fit run True data loss km = Inl unrecognized_algorithm"
    if "alg \<notin> {''BanditPAM'', ''naive''}" "algorithm km = alg"
      "setLossFn loss (km\<lparr>cout := cout km @ [''Works fine till here'']\<rparr>) = Inr km1"
    using fit_unrecognized_algorithm[OF that(3)] that(1,2) by simp
  then show ?thesis
    by (auto simp: checkAlgorithm_def KMedoids_ctor_def)
qed

theorem checkAlgorithm_names_witness:
  "''PAM'' \<notin> {''BanditPAM'', ''naive''} \<and>
   checkAlgorithm ''PAM'' km_default = Inl unrecognized_algorithm \<and>
   KMedoids_ctor 5 ''PAM'' 0 1000 1000 10000 ''KMedoidsLogfile'' 0 =
     Inl unrecognized_algorithm \<and>
   fit run_nothing True X_34 ''L2'' (km_default\<lparr>algorithm := ''PAM''\<rparr>) =
     Inl unrecognized_algorithm"
  using checkAlgorithm_names[of "''PAM''" km_default 5 0 1000 1000 10000
      "''KMedoidsLogfile''" 0]
    checkAlgorithm_names[of "''PAM''" "km_default\<lparr>algorithm := ''PAM''\<rparr>" 5 0 1000 1000
      10000 "''KMedoidsLogfile''" 0 "''L2''"
      "km_default\<lparr>algorithm := ''PAM'', cout := [''Works fine till here''],
         lossFn := Some ptr_LP, lp := 2\<rparr>" run_nothing X_34]
  by (simp add: km_default_def setLossFn_def setLossFn_try_def strip_L_def isdigit_def
      atoi_def)

section \<open>Loss names\<close>

lemma strip_L_outside_grammar:
  assumes "\<not> spec_loss_grammar loss" "loss \<noteq> ''L''"
  shows "strip_L loss = loss"
proof (cases loss)
  case Nil
  then show ?thesis by (simp add: strip_L_def)
next
  case (Cons c cs)
  then show ?thesis
    using assms by (auto simp: strip_L_def spec_loss_grammar_def)
qed

lemma setLossFn_six_names:
  "setLossFn ''L2'' km = Inr (km\<lparr>lossFn := Some ptr_LP, lp := 2\<rparr>)"
  "setLossFn ''2'' km = Inr (km\<lparr>lossFn := Some ptr_LP, lp := 2\<rparr>)"
  "setLossFn ''manhattan'' km = Inr (km\<lparr>lossFn := Some ptr_manhattan\<rparr>)"
  "setLossFn ''cos'' km = Inr (km\<lparr>lossFn := Some ptr_cos\<rparr>)"
  "setLossFn ''inf'' km = Inr (km\<lparr>lossFn := Some ptr_LINF\<rparr>)"
  "setLossFn ''L7'' km = Inr (km\<lparr>lossFn := Some ptr_LP, lp := 7\<rparr>)"
  by (simp_all add: setLossFn_def setLossFn_try_def strip_L_def isdigit_def atoi_def)

text \<open>
  Two kinds of names outside the grammar that do not reach the unrecognized-loss branch:
  a name that starts with a digit selects \<open>LP\<close> with the value of its leading digits,
  and the empty name throws \<open>out_of_range\<close> at \<^verbatim>\<open>loss.at(0)\<close>.
\<close>

lemma setLossFn_outside_grammar_examples:
  "\<not> spec_loss_grammar ''2x''"
  "setLossFn ''2x'' km = Inr (km\<lparr>lossFn := Some ptr_LP, lp := 2\<rparr>)"
  "\<not> spec_loss_grammar []"
  "setLossFn [] km = Inl out_of_range"
  by (simp_all add: spec_loss_grammar_def setLossFn_def setLossFn_try_def strip_L_def
      isdigit_def atoi_def)

text \<open>
  C2, as the claim states it, fails: on the name \<open>L-1\<close> \<open>setLossFn\<close> throws
  \<open>invalid_argument\<close> inside its own \<^verbatim>\<open>try\<close> block, catches it, prints the message and
  returns normally. No error reaches the caller.
\<close>

theorem setLossFn_L_minus_1_returns:
  "setLossFn ''L-1'' km_default =
     Inr (km_default\<lparr>cout := [''error: unrecognized loss function'']\<rparr>)"
  by (simp add: setLossFn_def setLossFn_try_def strip_L_def isdigit_def km_default_def)

text \<open>
  C2, amended. For a loss name outside the grammar that is not empty, is not the bare
  \<open>L\<close> and does not start with a digit (\<open>L-1\<close> is one), \<open>setLossFn\<close> prints the
  unrecognized-loss message and returns normally with the object otherwise unchanged, so
  \<open>fit\<close> is not aborted: it goes on to check the algorithm and to run the fit function.
  For the names \<open>L2\<close>, \<open>2\<close>, \<open>manhattan\<close>, \<open>cos\<close>, \<open>inf\<close> and \<open>L7\<close> nothing is raised or
  printed and the corresponding loss function is selected.
\<close>

theorem setLossFn_unrecognized_printed:
  assumes "\<not> spec_loss_grammar loss" and "loss \<noteq> []" and "loss \<noteq> ''L''"
    and "\<not> isdigit (hd loss)"
  shows "setLossFn loss km =
           Inr (km\<lparr>cout := cout km @ [''error: unrecognized loss function'']\<rparr>) \<and>
         fit run True data loss km =
           (case checkAlgorithm (algorithm km)
                   (km\<lparr>cout := cout km @ [''Works fine till here'',
                                           ''error: unrecognized loss function'']\<rparr>) of
              Inl e \<Rightarrow> Inl e
            | Inr km2 \<Rightarrow> (case fitFn km2 of None \<Rightarrow> Inl unrecognized_algorithm
                         | Some f \<Rightarrow> run f data km2)) \<and>
         setLossFn ''L2'' km = Inr (km\<lparr>lossFn := Some ptr_LP, lp := 2\<rparr>) \<and>
         setLossFn ''2'' km = Inr (km\<lparr>lossFn := Some ptr_LP, lp := 2\<rparr>) \<and>
         setLossFn ''manhattan'' km = Inr (km\<lparr>lossFn := Some ptr_manhattan\<rparr>) \<and>
         setLossFn ''cos'' km = Inr (km\<lparr>lossFn := Some ptr_cos\<rparr>) \<and>
         setLossFn ''inf'' km = Inr (km\<lparr>lossFn := Some ptr_LINF\<rparr>) \<and>
         setLossFn ''L7'' km = Inr (km\<lparr>lossFn := Some ptr_LP, lp := 7\<rparr>)"
proof -
  have s: "strip_L loss = loss"
    using assms(1,3) by (rule strip_L_outside_grammar)
  have n: "loss \<noteq> ''manhattan''" "loss \<noteq> ''cos''" "loss \<noteq> ''inf''"
    using assms(1) by (auto simp: spec_loss_grammar_def)
  obtain c cs where l: "loss = c # cs"
    using assms(2) by (cases loss) auto
  have t: "setLossFn_try loss k = Inl (invalid_argument ''error: unrecognized loss function'')"
    for k
    using n assms(4) l by (simp add: setLossFn_try_def)
  have p: "setLossFn loss k = Inr (k\<lparr>cout := cout k @ [''error: unrecognized loss function'']\<rparr>)"
    for k
    by (simp add: setLossFn_def s t)
  have f: "fit run True data loss km =
           (case checkAlgorithm (algorithm km)
                   (km\<lparr>cout := cout km @ [''Works fine till here'',
                                           ''error: unrecognized loss function'']\<rparr>) of
              Inl e \<Rightarrow> Inl e
            | Inr km2 \<Rightarrow> (case fitFn km2 of None \<Rightarrow> Inl unrecognized_algorithm
                         | Some f \<Rightarrow> run f data km2))"
    by (simp add: fit_def p)
  show ?thesis
    using p[of km] f setLossFn_six_names[of km] by simp
qed

theorem setLossFn_unrecognized_printed_witness:
  "\<not> spec_loss_grammar ''L-1'' \<and> ''L-1'' \<noteq> [] \<and> ''L-1'' \<noteq> ''L'' \<and> \<not> isdigit (hd ''L-1'') \<and>
   setLossFn ''L-1'' km_default =
     Inr (km_default\<lparr>cout := cout km_default @ [''error: unrecognized loss function'']\<rparr>) \<and>
   fit run_nothing True X_34 ''L-1'' km_default =
     Inr (km_default\<lparr>cout := [''Works fine till here'',
                               ''error: unrecognized loss function'']\<rparr>)"
proof -
  have h: "\<not> spec_loss_grammar ''L-1''" "''L-1'' \<noteq> []" "''L-1'' \<noteq> ''L''"
    "\<not> isdigit (hd ''L-1'')"
    by (simp_all add: spec_loss_grammar_def isdigit_def)
  show ?thesis
    using h setLossFn_unrecognized_printed[OF h, of km_default run_nothing X_34]
    by (simp add: km_default_def checkAlgorithm_def run_nothing_def)
qed

text \<open>
  C10. The bare name \<open>L\<close> matches the regular expression \<^verbatim>\<open>L\d*\<close>, loses its only
  character, and \<^verbatim>\<open>loss.at(0)\<close> is then out of range on the empty string: the call throws
  \<open>out_of_range\<close>, which the handler for \<open>invalid_argument\<close> does not catch.
\<close>

theorem setLossFn_bare_L_out_of_range:
  "regex_match_L_digits ''L'' \<and> strip_L ''L'' = [] \<and> setLossFn ''L'' km = Inl out_of_range"
  by (simp add: setLossFn_def setLossFn_try_def strip_L_def)

text \<open>With at least one digit after the \<open>L\<close> the access is in bounds.\<close>

lemma strip_L_digits_nonempty:
  "regex_match_L_digits loss \<Longrightarrow> loss \<noteq> ''L'' \<Longrightarrow> strip_L loss \<noteq> [] \<and> isdigit (hd (strip_L loss))"
  by (cases loss) (auto simp: strip_L_def neq_Nil_conv)

section \<open>The loss functions\<close>

lemma sqrt_25: "sqrt 25 = 5"
  using real_sqrt_abs[of 5] by simp

text \<open>
  What three of the functions return on two columns \<open>i\<close> and \<open>j\<close> of the matrix, in
  terms of its elements.
\<close>

lemma map2_map_map: "map2 h (map f xs) (map g xs) = map (\<lambda>x. h (f x) (g x)) xs"
  by (induction xs) simp_all

lemma sum_list_upt: "sum_list (map f [0..<n]) = (\<Sum>r<n. f r :: real)"
  by (simp add: interv_sum_list_conv_sum_set_nat atLeast0LessThan)

lemma manhattan_value:
  assumes "i < n_cols data" "j < n_cols data"
  shows "manhattan data i j = Inr (\<Sum>r<n_rows data. \<bar>mem data r i - mem data r j\<bar>)"
  using assms
  by (simp add: manhattan_def col_def vec_minus_def arma_abs_def arma_accu_def map2_map_map
      comp_def sum_list_upt)

lemma LP_value:
  assumes "i < n_cols data" "j < n_cols data" "0 < p"
  shows "LP p data i j = Inr (root p (\<Sum>r<n_rows data. \<bar>mem data r i - mem data r j\<bar> ^ p))"
  using assms
  by (simp add: LP_def col_def vec_minus_def arma_norm_def vec_norm_k_def map2_map_map
      comp_def sum_list_upt)

lemma cos_loss_value:
  assumes "i < n_cols data" "j < n_cols data"
    and "sqrt (\<Sum>r<n_rows data. (mem data r i)\<^sup>2) * sqrt (\<Sum>r<n_rows data. (mem data r j)\<^sup>2) \<noteq> 0"
  shows "cos_loss data i j =
           Inr ((\<Sum>r<n_rows data. mem data r i * mem data r j) /
                (sqrt (\<Sum>r<n_rows data. (mem data r i)\<^sup>2) *
                 sqrt (\<Sum>r<n_rows data. (mem data r j)\<^sup>2)))"
  using assms
  by (simp add: cos_loss_def col_def arma_dot_def vec_norm_k_def map2_map_map
      comp_def sum_list_upt sqrt_def[symmetric])

text \<open>
  C1. On the points \<open>(3, 4)\<close> and \<open>(4, 3)\<close> \<open>cos\<close> returns the cosine similarity
  \<open>24/25\<close>, not the dissimilarity \<open>1 - 24/25\<close> of the claim.
\<close>

theorem cos_loss_returns_similarity:
  "cos_loss X_34 0 1 = Inr (24 / 25) \<and> cos_loss X_34 0 1 \<noteq> Inr (1 - 24 / 25)"
  by (simp add: cos_loss_def col_def X_34_def mat_of_cols_def vec_norm_k_def arma_dot_def
      sqrt_def[symmetric] upt_rec sqrt_25)

text \<open>
  C8. \<open>manhattan\<close> returns what \<open>LP\<close> returns with \<open>lp = 1\<close>, on every matrix and every
  pair of indices (the same error when an index is out of bounds).
\<close>

theorem manhattan_eq_LP_1: "manhattan data i j = LP 1 data i j"
  by (simp add: manhattan_def LP_def arma_norm_def vec_norm_k_def arma_accu_def arma_abs_def
      split: sum.splits)

section \<open>Nearest and second-nearest medoids\<close>

lemma sort_snoc: "sort (xs @ [c]) = insort c (sort xs)"
  by (induction xs) (simp_all add: insort_left_comm)

lemma two_smallest_step:
  assumes "sorted ys"
  shows "(if Fin c < nth_or_PInf ys 0 then (Fin c, nth_or_PInf ys 0)
          else if Fin c < nth_or_PInf ys 1 then (nth_or_PInf ys 0, Fin c)
          else (nth_or_PInf ys 0, nth_or_PInf ys 1)) =
         (nth_or_PInf (insort c ys) 0, nth_or_PInf (insort c ys) 1)"
proof (cases ys)
  case Nil
  then show ?thesis by (simp add: nth_or_PInf_def)
next
  case (Cons a zs)
  show ?thesis
  proof (cases zs)
    case Nil
    with Cons show ?thesis by (auto simp: nth_or_PInf_def)
  next
    case (Cons b rest)
    with \<open>ys = a # zs\<close> assms show ?thesis by (auto simp: nth_or_PInf_def)
  qed
qed

lemma best_second_loop_values:
  assumes "\<forall>k\<in>set ks. k < length M \<and> loss_fn data (M ! k) i = Inr (cost k)"
    and "i < length asg"
    and "b = nth_or_PInf (sort pre) 0" "s = nth_or_PInf (sort pre) 1"
  shows "\<exists>asg'. best_second_loop loss_fn data M i ks (asg, b, s) =
           Inr (asg', nth_or_PInf (sort (pre @ map cost ks)) 0,
                nth_or_PInf (sort (pre @ map cost ks)) 1) \<and>
         length asg' = length asg \<and> (\<forall>i'. i' \<noteq> i \<longrightarrow> asg' ! i' = asg ! i')"
  using assms
proof (induction ks arbitrary: asg b s pre)
  case Nil
  then show ?case by simp
next
  case (Cons k ks)
  have k: "k < length M" "loss_fn data (M ! k) i = Inr (cost k)"
    using Cons.prems(1) by simp_all
  have rest: "\<forall>k\<in>set ks. k < length M \<and> loss_fn data (M ! k) i = Inr (cost k)"
    using Cons.prems(1) by simp
  let ?c = "cost k"
  let ?ys = "sort pre"
  have step: "(if Fin ?c < b then (Fin ?c, b)
          else if Fin ?c < s then (b, Fin ?c) else (b, s)) =
         (nth_or_PInf (sort (pre @ [?c])) 0, nth_or_PInf (sort (pre @ [?c])) 1)"
    unfolding sort_snoc Cons.prems(3,4) by (rule two_smallest_step) simp
  have app: "(pre @ [?c]) @ map cost ks = pre @ map cost (k # ks)"
    by simp
  show ?case
  proof (cases "Fin ?c < b")
    case True
    have l: "i < length (asg[i := k])" using Cons.prems(2) by simp
    from True step have e: "Fin ?c = nth_or_PInf (sort (pre @ [?c])) 0"
      "b = nth_or_PInf (sort (pre @ [?c])) 1" by simp_all
    from Cons.IH[OF rest l e] obtain asg' where
      r: "best_second_loop loss_fn data M i ks (asg[i := k], Fin ?c, b) =
           Inr (asg', nth_or_PInf (sort ((pre @ [?c]) @ map cost ks)) 0,
                nth_or_PInf (sort ((pre @ [?c]) @ map cost ks)) 1)"
      and "length asg' = length (asg[i := k])"
      and "\<forall>i'. i' \<noteq> i \<longrightarrow> asg' ! i' = asg[i := k] ! i'"
      by blast
    then show ?thesis
      using True k Cons.prems(2) unfolding app
      by (auto simp: vec_at_def vec_set_def)
  next
    case False
    note nb = this
    show ?thesis
    proof (cases "Fin ?c < s")
      case True
      from nb True step have e: "b = nth_or_PInf (sort (pre @ [?c])) 0"
        "Fin ?c = nth_or_PInf (sort (pre @ [?c])) 1" by simp_all
      from Cons.IH[OF rest Cons.prems(2) e] show ?thesis
        using nb True k unfolding app by (auto simp: vec_at_def)
    next
      case False
      from nb False step have e: "b = nth_or_PInf (sort (pre @ [?c])) 0"
        "s = nth_or_PInf (sort (pre @ [?c])) 1" by simp_all
      from Cons.IH[OF rest Cons.prems(2) e] show ?thesis
        using nb False k unfolding app by (auto simp: vec_at_def)
    qed
  qed
qed

lemma best_second_loop_assignment:
  assumes "best_second_loop loss_fn data M i ks (asg, b, s) = Inr (asg', b', s')"
    and "ks = [k0..<n]"
    and "\<forall>k<n. k < length M \<and> loss_fn data (M ! k) i = Inr (cost k)"
    and "first_min cost k0 (asg ! i) b"
  shows "first_min cost (max k0 n) (asg' ! i) b'"
  using assms
proof (induction ks arbitrary: asg b s k0)
  case Nil
  from Nil.prems(2)[symmetric] have "n \<le> k0" by auto
  with Nil show ?case by (simp add: max_def)
next
  case (Cons k ks)
  from Cons.prems(2)[symmetric] have k: "k = k0" "k0 < n" "ks = [Suc k0..<n]"
    by (auto simp: upt_eq_Cons_conv)
  have c: "vec_at M k0 = Inr (M ! k0)" "loss_fn data (M ! k0) i = Inr (cost k0)"
    using Cons.prems(3) k(2) by (simp_all add: vec_at_def)
  have m: "max (Suc k0) n = max k0 n" using k(2) by simp
  show ?case
  proof (cases "Fin (cost k0) < b")
    case True
    with Cons.prems(1) c k(1) obtain asg1 where
      a1: "vec_set asg i k0 = Inr asg1"
      and r: "best_second_loop loss_fn data M i ks (asg1, Fin (cost k0), b) = Inr (asg', b', s')"
      by (auto split: sum.splits)
    from a1 have a1': "asg1 ! i = k0"
      by (auto simp: vec_set_def split: if_splits)
    have "first_min cost (Suc k0) (asg1 ! i) (Fin (cost k0))"
      using True Cons.prems(4) unfolding first_min_def a1'
      by (auto simp: less_Suc_eq intro: less_imp_le order.strict_trans2 order.strict_implies_order)
    from Cons.IH[OF r k(3) Cons.prems(3) this] show ?thesis
      unfolding m .
  next
    case False
    with Cons.prems(1) c k(1) obtain s1 where
      r: "best_second_loop loss_fn data M i ks (asg, b, s1) = Inr (asg', b', s')"
      by (auto split: sum.splits if_splits)
    have "first_min cost (Suc k0) (asg ! i) b"
      using False Cons.prems(4) unfolding first_min_def
      by (auto simp: less_Suc_eq not_less)
    from Cons.IH[OF r k(3) Cons.prems(3) this] show ?thesis
      unfolding m .
  qed
qed


lemma best_second_loop_point:
  assumes "\<forall>k<length M. \<forall>i<n. loss_fn data (M ! k) i = Inr (d (M ! k) i)"
    and "i < n" "i < length asg"
  shows "\<exists>asg' b s.
           best_second_loop loss_fn data M i [0..<length M] (asg, PInf, PInf) =
             Inr (asg', b, s) \<and>
           length asg' = length asg \<and> (\<forall>i'. i' \<noteq> i \<longrightarrow> asg' ! i' = asg ! i') \<and>
           b = nth_or_PInf (sort (map (\<lambda>m. d m i) M)) 0 \<and>
           s = nth_or_PInf (sort (map (\<lambda>m. d m i) M)) 1 \<and>
           first_min (\<lambda>k. d (M ! k) i) (length M) (asg' ! i) b"
proof -
  let ?cost = "\<lambda>k. d (M ! k) i"
  have c: "\<forall>k\<in>set [0..<length M]. k < length M \<and> loss_fn data (M ! k) i = Inr (?cost k)"
    using assms(1,2) by simp
  have m: "map ?cost [0..<length M] = map (\<lambda>m. d m i) M"
    by (rule nth_equalityI) simp_all
  have "\<exists>asg'. best_second_loop loss_fn data M i [0..<length M] (asg, PInf, PInf) =
           Inr (asg', nth_or_PInf (sort ([] @ map ?cost [0..<length M])) 0,
                nth_or_PInf (sort ([] @ map ?cost [0..<length M])) 1) \<and>
         length asg' = length asg \<and> (\<forall>i'. i' \<noteq> i \<longrightarrow> asg' ! i' = asg ! i')"
    using c assms(3)
    by (rule best_second_loop_values[where cost = ?cost]) (simp_all add: nth_or_PInf_def)
  then obtain asg' where
    r: "best_second_loop loss_fn data M i [0..<length M] (asg, PInf, PInf) =
          Inr (asg', nth_or_PInf (sort (map (\<lambda>m. d m i) M)) 0,
               nth_or_PInf (sort (map (\<lambda>m. d m i) M)) 1)"
    and l: "length asg' = length asg" "\<forall>i'. i' \<noteq> i \<longrightarrow> asg' ! i' = asg ! i'"
    unfolding m by auto
  have c': "\<forall>k<length M. k < length M \<and> loss_fn data (M ! k) i = Inr (?cost k)"
    using assms(1,2) by simp
  have "first_min ?cost 0 (asg ! i) PInf"
    by (simp add: first_min_def)
  from best_second_loop_assignment[where cost = ?cost, OF r refl c' this]
  have "first_min ?cost (length M) (asg' ! i)
          (nth_or_PInf (sort (map (\<lambda>m. d m i) M)) 0)"
    by simp
  with r l show ?thesis by blast
qed

lemma points_loop_result:
  assumes "\<forall>k<length M. \<forall>i<n. loss_fn data (M ! k) i = Inr (d (M ! k) i)"
    and "distinct ps" "\<forall>i\<in>set ps. i < n \<and> i < length bd \<and> i < length sd \<and> i < length asg"
  shows "\<exists>bd' sd' asg'.
           points_loop loss_fn data M ps (bd, sd, asg) = Inr (bd', sd', asg') \<and>
           length bd' = length bd \<and> length sd' = length sd \<and> length asg' = length asg \<and>
           (\<forall>i\<in>set ps. point_done d M i (bd' ! i) (sd' ! i) (asg' ! i)) \<and>
           (\<forall>i. i \<notin> set ps \<longrightarrow> bd' ! i = bd ! i \<and> sd' ! i = sd ! i \<and> asg' ! i = asg ! i)"
  using assms(2,3)
proof (induction ps arbitrary: bd sd asg)
  case Nil
  then show ?case by simp
next
  case (Cons i ps)
  have i: "i < n" "i < length bd" "i < length sd" "i < length asg" "i \<notin> set ps"
    using Cons.prems by simp_all
  from best_second_loop_point[where d = d and loss_fn = loss_fn and data = data and M = M
      and n = n, OF assms(1) i(1) i(4)] obtain asg1 b s where
    r: "best_second_loop loss_fn data M i [0..<length M] (asg, PInf, PInf) = Inr (asg1, b, s)"
    and l1: "length asg1 = length asg" and o1: "\<forall>i'. i' \<noteq> i \<longrightarrow> asg1 ! i' = asg ! i'"
    and p: "point_done d M i b s (asg1 ! i)"
    unfolding point_done_def by blast
  have d: "distinct ps" using Cons.prems(1) by simp
  have b: "\<forall>j\<in>set ps. j < n \<and> j < length (bd[i := b]) \<and> j < length (sd[i := s]) \<and>
             j < length asg1"
    using Cons.prems(2) l1 by simp
  from Cons.IH[OF d b] obtain bd' sd' asg' where
    r2: "points_loop loss_fn data M ps (bd[i := b], sd[i := s], asg1) = Inr (bd', sd', asg')"
    and l2: "length bd' = length bd" "length sd' = length sd" "length asg' = length asg"
    and p2: "\<forall>j\<in>set ps. point_done d M j (bd' ! j) (sd' ! j) (asg' ! j)"
    and o2: "\<forall>j. j \<notin> set ps \<longrightarrow>
               bd' ! j = bd[i := b] ! j \<and> sd' ! j = sd[i := s] ! j \<and> asg' ! j = asg1 ! j"
    using l1 by auto
  have e: "points_loop loss_fn data M (i # ps) (bd, sd, asg) = Inr (bd', sd', asg')"
    using r r2 i by (simp add: vec_set_def)
  have here: "point_done d M i (bd' ! i) (sd' ! i) (asg' ! i)"
    using o2 i p by simp
  have other: "bd' ! j = bd ! j \<and> sd' ! j = sd ! j \<and> asg' ! j = asg ! j"
    if "j \<notin> set (i # ps)" for j
    using that o2 o1 by simp
  show ?case
    using e l2 here p2 other by auto
qed


lemma first_min_nearest:
  assumes "first_min (\<lambda>k. d (M ! k) i) (length M) a b" and "M \<noteq> []"
  shows "nearest_medoid d M i a \<and> b = Fin (Min ((\<lambda>m. d m i) ` set M))"
proof -
  from assms have a: "a < length M" "b = Fin (d (M ! a) i)"
    "\<forall>j<length M. d (M ! a) i \<le> d (M ! j) i" "\<forall>j<a. d (M ! a) i < d (M ! j) i"
    by (auto simp: first_min_def)
  have "Min ((\<lambda>m. d m i) ` set M) = d (M ! a) i"
  proof (rule Min_eqI)
    show "finite ((\<lambda>m. d m i) ` set M)" by simp
    show "d (M ! a) i \<le> y" if "y \<in> (\<lambda>m. d m i) ` set M" for y
      using that a(3) by (auto simp: in_set_conv_nth)
    show "d (M ! a) i \<in> (\<lambda>m. d m i) ` set M"
      using a(1) by simp
  qed
  with a show ?thesis by (simp add: nearest_medoid_def)
qed

lemma nth_or_PInf_sorted_le:
  "sorted xs \<Longrightarrow> nth_or_PInf xs 0 \<le> nth_or_PInf xs 1"
  by (cases xs; cases "tl xs") (auto simp: nth_or_PInf_def)

text \<open>
  C3. With a non-empty medoid sequence \<open>M\<close>, a loss function that returns \<open>d m i\<close> for
  every medoid \<open>m\<close> of \<open>M\<close> and point \<open>i\<close>, and output vectors with an entry for every
  point, \<open>calc_best_distances_swap\<close> returns, and for every point \<open>i\<close>:
  \<open>best_distances(i)\<close> is the minimum over \<open>M\<close> of \<open>d m i\<close>; \<open>second_distances(i)\<close> is
  the second entry of the sorted list of these distances (duplicates kept, \<open>+\<infinity>\<close> when
  \<open>M\<close> has one medoid); \<open>assignments(i)\<close> is the position of the nearest medoid, the
  lowest on ties; the best distance is at most the second; and both are finite when
  \<open>M\<close> has two medoids or more.
\<close>

theorem calc_best_distances_swap_nearest:
  assumes "medoid_indices \<noteq> []"
    and "\<forall>m\<in>set medoid_indices. \<forall>i<n_cols data. loss_fn data m i = Inr (d m i)"
    and "n_cols data \<le> length best_distances"
    and "n_cols data \<le> length second_distances"
    and "n_cols data \<le> length assignments"
  shows "\<exists>bd sd asg.
           calc_best_distances_swap loss_fn data medoid_indices best_distances
             second_distances assignments = Inr (bd, sd, asg) \<and>
           (\<forall>i<n_cols data.
              bd ! i = Fin (Min ((\<lambda>m. d m i) ` set medoid_indices)) \<and>
              sd ! i = nth_or_PInf (sort (map (\<lambda>m. d m i) medoid_indices)) 1 \<and>
              nearest_medoid d medoid_indices i (asg ! i) \<and>
              bd ! i \<le> sd ! i \<and>
              (2 \<le> length medoid_indices \<longrightarrow> bd ! i \<noteq> PInf \<and> sd ! i \<noteq> PInf))"
proof -
  let ?M = medoid_indices
  let ?n = "n_cols data"
  have c: "\<forall>k<length ?M. \<forall>i<?n. loss_fn data (?M ! k) i = Inr (d (?M ! k) i)"
    using assms(2) by simp
  have r: "\<forall>i\<in>set [0..<?n]. i < ?n \<and> i < length best_distances \<and>
             i < length second_distances \<and> i < length assignments"
    using assms(3,4,5) by simp
  from points_loop_result[where d = d and loss_fn = loss_fn and data = data and M = ?M
      and n = ?n, OF c distinct_upt r]
  obtain bd sd asg where
    e: "points_loop loss_fn data ?M [0..<?n]
          (best_distances, second_distances, assignments) = Inr (bd, sd, asg)"
    and p: "\<forall>i\<in>set [0..<?n]. point_done d ?M i (bd ! i) (sd ! i) (asg ! i)"
    by blast
  have "bd ! i = Fin (Min ((\<lambda>m. d m i) ` set ?M)) \<and>
        sd ! i = nth_or_PInf (sort (map (\<lambda>m. d m i) ?M)) 1 \<and>
        nearest_medoid d ?M i (asg ! i) \<and>
        bd ! i \<le> sd ! i \<and>
        (2 \<le> length ?M \<longrightarrow> bd ! i \<noteq> PInf \<and> sd ! i \<noteq> PInf)"
    if "i < ?n" for i
  proof -
    from p that have "point_done d ?M i (bd ! i) (sd ! i) (asg ! i)"
      by simp
    then have q: "bd ! i = nth_or_PInf (sort (map (\<lambda>m. d m i) ?M)) 0"
      "sd ! i = nth_or_PInf (sort (map (\<lambda>m. d m i) ?M)) 1"
      "first_min (\<lambda>k. d (?M ! k) i) (length ?M) (asg ! i) (bd ! i)"
      unfolding point_done_def by blast+
    from first_min_nearest[where d = d and M = ?M and i = i, OF q(3) assms(1)]
    have n: "nearest_medoid d ?M i (asg ! i)"
      "bd ! i = Fin (Min ((\<lambda>m. d m i) ` set ?M))"
      by simp_all
    have l: "bd ! i \<le> sd ! i"
      unfolding q(1,2) by (rule nth_or_PInf_sorted_le) simp
    have f: "sd ! i \<noteq> PInf" if "2 \<le> length ?M"
      using that unfolding q(2) by (simp add: nth_or_PInf_def)
    show ?thesis
      using n l f q(2) by simp
  qed
  then show ?thesis
    unfolding calc_best_distances_swap_def using e by blast
qed

lemma manhattan_X_line:
  "\<forall>m\<in>set [0, 2]. \<forall>i<n_cols X_line. manhattan X_line m i = Inr (d_line m i)"
  by (simp add: manhattan_def col_def X_line_def mat_of_cols_def d_line_def arma_accu_def
      arma_abs_def vec_minus_def less_Suc_eq numeral_3_eq_3)

theorem calc_best_distances_swap_nearest_witness:
  "\<exists>bd sd asg.
     calc_best_distances_swap manhattan X_line [0, 2] [PInf, PInf, PInf] [PInf, PInf, PInf]
       [7, 7, 7] = Inr (bd, sd, asg) \<and>
     bd ! 1 = Fin 1 \<and> sd ! 1 = Fin 4 \<and> asg ! 1 = 0 \<and> bd ! 1 \<le> sd ! 1"
proof -
  have h: "[0, 2] \<noteq> ([] :: nat list)"
    "n_cols X_line \<le> length [PInf, PInf, PInf]"
    "n_cols X_line \<le> length [7 :: nat, 7, 7]"
    by (simp_all add: X_line_def mat_of_cols_def)
  from calc_best_distances_swap_nearest[where loss_fn = manhattan and data = X_line
      and d = d_line, OF h(1) manhattan_X_line h(2) h(2) h(3)]
  obtain bd sd asg where
    e: "calc_best_distances_swap manhattan X_line [0, 2] [PInf, PInf, PInf]
          [PInf, PInf, PInf] [7, 7, 7] = Inr (bd, sd, asg)"
    and p: "\<forall>i<n_cols X_line.
              bd ! i = Fin (Min ((\<lambda>m. d_line m i) ` set [0, 2])) \<and>
              sd ! i = nth_or_PInf (sort (map (\<lambda>m. d_line m i) [0, 2])) 1 \<and>
              nearest_medoid d_line [0, 2] i (asg ! i) \<and>
              bd ! i \<le> sd ! i \<and>
              (2 \<le> length [0 :: nat, 2] \<longrightarrow> bd ! i \<noteq> PInf \<and> sd ! i \<noteq> PInf)"
    by blast
  have "1 < n_cols X_line" by (simp add: X_line_def mat_of_cols_def)
  with p have q: "bd ! 1 = Fin (Min ((\<lambda>m. d_line m 1) ` set [0, 2]))"
    "sd ! 1 = nth_or_PInf (sort (map (\<lambda>m. d_line m 1) [0, 2])) 1"
    "nearest_medoid d_line [0, 2] 1 (asg ! 1)" "bd ! 1 \<le> sd ! 1"
    by blast+
  have b: "bd ! 1 = Fin 1" using q(1) by (simp add: d_line_def)
  have s: "sd ! 1 = Fin 4" using q(2) by (simp add: d_line_def nth_or_PInf_def)
  have a: "asg ! 1 = 0"
    using q(3) by (auto simp: nearest_medoid_def d_line_def less_Suc_eq numeral_2_eq_2)
  show ?thesis using e b s a q(4) by blast
qed

section \<open>The total loss\<close>

lemma Fin_min: "Fin (min a b) = min (Fin a) (Fin b)"
  by (simp add: min_def)

lemma min_cost_loop_result:
  assumes "\<forall>k\<in>set ks. k < length M \<and> loss_fn data (M ! k) i = Inr (cost k)"
  shows "min_cost_loop loss_fn data M i ks c0 =
           Inr (if ks = [] then c0 else min c0 (Fin (Min (cost ` set ks))))"
  using assms
proof (induction ks arbitrary: c0)
  case Nil
  then show ?case by simp
next
  case (Cons k ks)
  have k: "vec_at M k = Inr (M ! k)" "loss_fn data (M ! k) i = Inr (cost k)"
    using Cons.prems by (simp_all add: vec_at_def)
  have rest: "\<forall>k\<in>set ks. k < length M \<and> loss_fn data (M ! k) i = Inr (cost k)"
    using Cons.prems by simp
  let ?c1 = "if Fin (cost k) < c0 then Fin (cost k) else c0"
  have c1: "?c1 = min c0 (Fin (cost k))"
    by (auto simp: min_def)
  have "min_cost_loop loss_fn data M i (k # ks) c0 = min_cost_loop loss_fn data M i ks ?c1"
    using k by simp
  also have "\<dots> = Inr (if ks = [] then ?c1 else min ?c1 (Fin (Min (cost ` set ks))))"
    by (rule Cons.IH[OF rest])
  also have "(if ks = [] then ?c1 else min ?c1 (Fin (Min (cost ` set ks)))) =
             min c0 (Fin (Min (cost ` set (k # ks))))"
  proof (cases "ks = []")
    case True
    then show ?thesis unfolding c1 by simp
  next
    case False
    then have "Min (cost ` set (k # ks)) = min (cost k) (Min (cost ` set ks))"
      by simp
    then show ?thesis
      unfolding c1 using False by (simp add: Fin_min min.assoc)
  qed
  finally show ?case by simp
qed

lemma total_loop_result:
  assumes "\<forall>i\<in>set ps. min_cost_loop loss_fn data M i [0..<n_med] PInf = Inr (mc i)"
  shows "total_loop loss_fn n_med data M ps t = Inr (fold (\<lambda>i t. ext_plus t (mc i)) ps t)"
  using assms by (induction ps arbitrary: t) simp_all

lemma fold_ext_plus_Fin:
  "fold (\<lambda>i t. ext_plus t (Fin (f i))) ps (Fin t0) = Fin (t0 + sum_list (map f ps))"
  by (induction ps arbitrary: t0) (simp_all add: add.assoc)

lemma fold_ext_plus_PInf:
  "fold (\<lambda>i t. ext_plus t PInf) ps t = (if ps = [] then t else PInf)"
proof (induction ps arbitrary: t)
  case Nil
  then show ?case by simp
next
  case (Cons p ps)
  have "ext_plus t PInf = PInf" by (cases t) simp_all
  then show ?case using Cons.IH[of PInf] by simp
qed

text \<open>
  C6. For a medoid sequence \<open>M\<close> of length \<open>n_medoids\<close> and a loss function that returns
  \<open>d m i\<close> for every medoid \<open>m\<close> of \<open>M\<close> and point \<open>i\<close>, \<open>calc_loss\<close> returns the sum
  over all points \<open>i\<close> of the minimum over \<open>m\<close> in \<open>M\<close> of \<open>d m i\<close>. (For the empty
  sequence each minimum is the initial \<open>+\<infinity>\<close>, and so is the sum unless there is no
  point.)
\<close>

theorem calc_loss_sum_of_minima:
  assumes "length medoid_indices = n_med"
    and "\<forall>m\<in>set medoid_indices. \<forall>i<n_cols data. loss_fn data m i = Inr (d m i)"
  shows "(medoid_indices \<noteq> [] \<longrightarrow>
            calc_loss loss_fn n_med data medoid_indices =
              Inr (Fin (\<Sum>i<n_cols data. Min ((\<lambda>m. d m i) ` set medoid_indices)))) \<and>
         (medoid_indices = [] \<longrightarrow>
            calc_loss loss_fn n_med data medoid_indices =
              Inr (if n_cols data = 0 then Fin 0 else PInf))"
proof -
  let ?M = medoid_indices
  let ?n = "n_cols data"
  have loop: "min_cost_loop loss_fn data ?M i [0..<n_med] PInf =
            Inr (if ?M = [] then PInf else Fin (Min ((\<lambda>m. d m i) ` set ?M)))"
    if "i < ?n" for i
  proof -
    have c: "\<forall>k\<in>set [0..<n_med]. k < length ?M \<and>
               loss_fn data (?M ! k) i = Inr (d (?M ! k) i)"
      using assms that by simp
    have "map (\<lambda>k. d (?M ! k) i) [0..<n_med] = map (\<lambda>m. d m i) ?M"
      using assms(1) by (intro nth_equalityI) simp_all
    from arg_cong[OF this, of set]
    have s: "(\<lambda>k. d (?M ! k) i) ` set [0..<n_med] = (\<lambda>m. d m i) ` set ?M"
      by simp
    have e: "([0..<n_med] = []) = (?M = [])"
      using assms(1) by auto
    show ?thesis
      using min_cost_loop_result[where cost = "\<lambda>k. d (?M ! k) i" and loss_fn = loss_fn
          and data = data and M = ?M and i = i, OF c, of PInf]
      unfolding s e by (simp add: min_def)
  qed
  show ?thesis
  proof (cases "?M = []")
    case True
    have "\<forall>i\<in>set [0..<?n]. min_cost_loop loss_fn data ?M i [0..<n_med] PInf = Inr PInf"
      using loop True by simp
    from total_loop_result[where mc = "\<lambda>i. PInf", OF this]
    show ?thesis
      using True by (simp add: calc_loss_def fold_ext_plus_PInf)
  next
    case False
    let ?f = "\<lambda>i. Min ((\<lambda>m. d m i) ` set ?M)"
    have "\<forall>i\<in>set [0..<?n]. min_cost_loop loss_fn data ?M i [0..<n_med] PInf =
            Inr (Fin (?f i))"
      using loop False by simp
    from total_loop_result[where mc = "\<lambda>i. Fin (?f i)", OF this]
    have "calc_loss loss_fn n_med data ?M = Inr (Fin (sum_list (map ?f [0..<?n])))"
      by (simp add: calc_loss_def fold_ext_plus_Fin)
    also have "sum_list (map ?f [0..<?n]) = (\<Sum>i<?n. ?f i)"
      by (simp add: interv_sum_list_conv_sum_set_nat atLeast0LessThan)
    finally show ?thesis
      using False by simp
  qed
qed

theorem calc_loss_sum_of_minima_witness:
  "calc_loss manhattan 2 X_line [0, 2] = Inr (Fin 1)"
proof -
  have h: "length [0 :: nat, 2] = 2" by simp
  from calc_loss_sum_of_minima[where loss_fn = manhattan and data = X_line and d = d_line,
      OF h manhattan_X_line]
  have "calc_loss manhattan 2 X_line [0, 2] =
          Inr (Fin (\<Sum>i<n_cols X_line. Min ((\<lambda>m. d_line m i) ` set [0, 2])))"
    by simp
  also have "n_cols X_line = Suc (Suc (Suc 0))"
    by (simp add: X_line_def mat_of_cols_def)
  finally show ?thesis
    by (simp add: d_line_def)
qed

section \<open>The dispersion estimate of BUILD\<close>

lemma build_sample_loop_result:
  assumes "\<forall>j\<in>set js. j < length tmp_refs \<and> j < length sample \<and>
             loss_fn data i (tmp_refs ! j) = Inr (d i (tmp_refs ! j)) \<and>
             (\<not> use_absolute \<longrightarrow> tmp_refs ! j < length best_distances \<and>
                best_distances ! (tmp_refs ! j) = Fin (db (tmp_refs ! j)))"
  shows "\<exists>sample'.
           build_sample_loop loss_fn data best_distances tmp_refs use_absolute i js sample =
             Inr sample' \<and>
           length sample' = length sample \<and>
           (\<forall>j\<in>set js. sample' ! j = build_reward use_absolute d db i (tmp_refs ! j)) \<and>
           (\<forall>j. j \<notin> set js \<longrightarrow> sample' ! j = sample ! j)"
  using assms
proof (induction js arbitrary: sample)
  case Nil
  then show ?case by simp
next
  case (Cons j js)
  let ?ref = "tmp_refs ! j"
  let ?x = "build_reward use_absolute d db i ?ref"
  have j: "j < length tmp_refs" "j < length sample"
    "loss_fn data i ?ref = Inr (d i ?ref)"
    using Cons.prems by simp_all
  have rest: "\<forall>j'\<in>set js. j' < length tmp_refs \<and> j' < length (sample[j := ?x]) \<and>
             loss_fn data i (tmp_refs ! j') = Inr (d i (tmp_refs ! j')) \<and>
             (\<not> use_absolute \<longrightarrow> tmp_refs ! j' < length best_distances \<and>
                best_distances ! (tmp_refs ! j') = Fin (db (tmp_refs ! j')))"
    using Cons.prems by simp
  have step: "build_sample_loop loss_fn data best_distances tmp_refs use_absolute i (j # js)
                sample =
              build_sample_loop loss_fn data best_distances tmp_refs use_absolute i js
                (sample[j := ?x])"
  proof (cases use_absolute)
    case True
    then show ?thesis
      using j by (simp add: vec_at_def vec_set_def build_reward_def)
  next
    case False
    then have b: "?ref < length best_distances" "best_distances ! ?ref = Fin (db ?ref)"
      using Cons.prems by simp_all
    have "(if d i ?ref < db ?ref then d i ?ref else db ?ref) = min (d i ?ref) (db ?ref)"
      by (simp add: min_def)
    then show ?thesis
      using False j b by (simp add: vec_at_def vec_set_def build_reward_def)
  qed
  from Cons.IH[OF rest] obtain sample' where
    r: "build_sample_loop loss_fn data best_distances tmp_refs use_absolute i js
          (sample[j := ?x]) = Inr sample'"
    and l: "length sample' = length sample"
    and v: "\<forall>j'\<in>set js. sample' ! j' = build_reward use_absolute d db i (tmp_refs ! j')"
    and o: "\<forall>j'. j' \<notin> set js \<longrightarrow> sample' ! j' = sample[j := ?x] ! j'"
    by auto
  have here: "sample' ! j = ?x"
    using v o j(2) by (cases "j \<in> set js") simp_all
  have other: "sample' ! j' = sample ! j'" if "j' \<notin> set (j # js)" for j'
    using that o by simp
  show ?case
    unfolding step using r l v here other by auto
qed

lemma build_sample_loop_batch:
  assumes "length tmp_refs = batch_size" "length sample = batch_size"
    and "\<forall>r\<in>set tmp_refs. loss_fn data i r = Inr (d i r) \<and>
           (\<not> use_absolute \<longrightarrow> r < length best_distances \<and> best_distances ! r = Fin (db r))"
  shows "build_sample_loop loss_fn data best_distances tmp_refs use_absolute i
           [0..<batch_size] sample =
         Inr (map (build_reward use_absolute d db i) tmp_refs)"
proof -
  have "\<forall>j\<in>set [0..<batch_size]. j < length tmp_refs \<and> j < length sample \<and>
             loss_fn data i (tmp_refs ! j) = Inr (d i (tmp_refs ! j)) \<and>
             (\<not> use_absolute \<longrightarrow> tmp_refs ! j < length best_distances \<and>
                best_distances ! (tmp_refs ! j) = Fin (db (tmp_refs ! j)))"
    using assms by simp
  from build_sample_loop_result[where d = d and db = db and loss_fn = loss_fn
      and data = data and i = i, OF this]
  obtain sample' where
    r: "build_sample_loop loss_fn data best_distances tmp_refs use_absolute i
          [0..<batch_size] sample = Inr sample'"
    and l: "length sample' = length sample"
    and v: "\<forall>j\<in>set [0..<batch_size].
              sample' ! j = build_reward use_absolute d db i (tmp_refs ! j)"
    by blast
  have "sample' = map (build_reward use_absolute d db i) tmp_refs"
    using l v assms(1,2) by (intro nth_equalityI) simp_all
  with r show ?thesis by simp
qed

lemma build_finish_result:
  assumes "length tmp_refs = batch_size" "length sample = batch_size"
    and "\<forall>c\<in>set ps. c < length sigma \<and> c < length pcs \<and> pcs ! c = 0 \<and>
           (\<forall>r\<in>set tmp_refs. loss_fn data c r = Inr (d c r))"
    and "\<not> use_absolute \<longrightarrow>
           (\<forall>r\<in>set tmp_refs. r < length best_distances \<and> best_distances ! r = Fin (db r))"
    and "distinct ps"
  shows "\<exists>pcs' sigma' sample'.
           build_finish loss_fn data best_distances tmp_refs batch_size use_absolute ps
             (pcs, sigma, sample) = Inr (pcs', sigma', sample') \<and>
           length sigma' = length sigma \<and>
           (\<forall>c\<in>set ps. sigma' ! c =
              stddev (map (build_reward use_absolute d db c) tmp_refs)) \<and>
           (\<forall>c. c \<notin> set ps \<longrightarrow> sigma' ! c = sigma ! c)"
  using assms(2,3,5)
proof (induction ps arbitrary: pcs sigma sample)
  case Nil
  then show ?case by simp
next
  case (Cons c ps)
  let ?s = "map (build_reward use_absolute d db c) tmp_refs"
  have c: "c < length sigma" "c < length pcs" "pcs ! c = 0" "c \<notin> set ps" "distinct ps"
    using Cons.prems by simp_all
  have "\<forall>r\<in>set tmp_refs. loss_fn data c r = Inr (d c r) \<and>
           (\<not> use_absolute \<longrightarrow> r < length best_distances \<and> best_distances ! r = Fin (db r))"
    using Cons.prems(2) assms(4) by simp
  from build_sample_loop_batch[where d = d and db = db and loss_fn = loss_fn
      and data = data and i = c, OF assms(1) Cons.prems(1) this]
  have s: "build_sample_loop loss_fn data best_distances tmp_refs use_absolute c
             [pcs ! c..<batch_size] sample = Inr ?s"
    unfolding c(3) .
  have l: "length ?s = batch_size" using assms(1) by simp
  let ?pcs = "pcs[c := Suc batch_size]"
  have rest: "\<forall>c'\<in>set ps. c' < length (sigma[c := stddev ?s]) \<and> c' < length ?pcs \<and>
           ?pcs ! c' = 0 \<and> (\<forall>r\<in>set tmp_refs. loss_fn data c' r = Inr (d c' r))"
  proof
    fix c'
    assume m: "c' \<in> set ps"
    with c(4) have "c \<noteq> c'" by auto
    then have "?pcs ! c' = pcs ! c'" by simp
    with m Cons.prems(2) show "c' < length (sigma[c := stddev ?s]) \<and> c' < length ?pcs \<and>
           ?pcs ! c' = 0 \<and> (\<forall>r\<in>set tmp_refs. loss_fn data c' r = Inr (d c' r))"
      by simp
  qed
  from Cons.IH[OF l rest c(5)] obtain pcs' sigma' sample' where
    r: "build_finish loss_fn data best_distances tmp_refs batch_size use_absolute ps
          (?pcs, sigma[c := stddev ?s], ?s) = Inr (pcs', sigma', sample')"
    and l': "length sigma' = length sigma"
    and v: "\<forall>c'\<in>set ps. sigma' ! c' =
              stddev (map (build_reward use_absolute d db c') tmp_refs)"
    and o: "\<forall>c'. c' \<notin> set ps \<longrightarrow> sigma' ! c' = sigma[c := stddev ?s] ! c'"
    by auto
  have e: "build_finish loss_fn data best_distances tmp_refs batch_size use_absolute
             (c # ps) (pcs, sigma, sample) = Inr (pcs', sigma', sample')"
    using s r c(1,3) by (simp add: vec_set_def)
  have here: "sigma' ! c = stddev ?s"
    using o c by simp
  have other: "sigma' ! c' = sigma ! c'" if "c' \<notin> set (c # ps)" for c'
    using that o by simp
  show ?case
    using e l' v here other by auto
qed

text \<open>
  When the iterations of the candidate loop run one after the other (the empty
  schedule), \<open>sigma(c)\<close> is the sample standard deviation the specification describes.
\<close>

lemma build_sigma_sequential:
  assumes "randperm (n_cols data) batch_size = Inr tmp_refs"
    and "length tmp_refs = batch_size"
    and "n_cols data \<le> length sigma" and "sigma \<noteq> []"
    and "\<forall>c<n_cols data. \<forall>r\<in>set tmp_refs. loss_fn data c r = Inr (d c r)"
    and "\<not> use_absolute \<longrightarrow>
           (\<forall>r\<in>set tmp_refs. r < length best_distances \<and> best_distances ! r = Fin (db r))"
  shows "\<exists>sigma'.
           build_sigma loss_fn randperm sample_mem [] data best_distances sigma batch_size
             use_absolute = Inr sigma' \<and>
           length sigma' = length sigma \<and>
           (\<forall>c<n_cols data.
              sigma' ! c =
                stddev (map (\<lambda>j. if use_absolute then d c j
                                  else min (d c j) (db j) - db j) tmp_refs))"
proof -
  have l: "length (map sample_mem [0..<batch_size]) = batch_size" by simp
  have c: "\<forall>c\<in>set [0..<n_cols data]. c < length sigma \<and>
           c < length (replicate (n_cols data) (0 :: nat)) \<and>
           replicate (n_cols data) (0 :: nat) ! c = 0 \<and>
           (\<forall>r\<in>set tmp_refs. loss_fn data c r = Inr (d c r))"
    using assms(3,5) by simp
  from build_finish_result[where d = d and db = db and loss_fn = loss_fn
      and data = data, OF assms(2) l c assms(6) distinct_upt]
  obtain pcs' sigma' sample' where
    r: "build_finish loss_fn data best_distances tmp_refs batch_size
          use_absolute [0..<n_cols data]
          (replicate (n_cols data) 0, sigma, map sample_mem [0..<batch_size]) =
        Inr (pcs', sigma', sample')"
    and l': "length sigma' = length sigma"
    and v: "\<forall>c\<in>set [0..<n_cols data]. sigma' ! c =
              stddev (map (build_reward use_absolute d db c) tmp_refs)"
    by blast
  have n: "sigma' \<noteq> []" using l' assms(4) by auto
  have e: "build_sigma loss_fn randperm sample_mem [] data best_distances sigma batch_size
             use_absolute = Inr sigma'"
    using assms(1) r n by (simp add: build_sigma_def)
  have b: "build_reward use_absolute d db c =
             (\<lambda>j. if use_absolute then d c j else min (d c j) (db j) - db j)" for c
    by (rule ext) (simp add: build_reward_def)
  show ?thesis
    using e l' v unfolding b by auto
qed

lemma manhattan_X_line_eq:
  assumes "c < 3" "r < 3"
  shows "manhattan X_line c r = Inr (d_line c r)"
proof -
  have "c < n_cols X_line" "r < n_cols X_line"
    using assms by (simp_all add: X_line_def mat_of_cols_def)
  from manhattan_value[OF this]
  have "manhattan X_line c r = Inr (\<bar>mem X_line 0 c - mem X_line 0 r\<bar>)"
    by (simp add: X_line_def mat_of_cols_def)
  moreover have "mem X_line 0 k = [0, 1, 5] ! k" if "k < 3" for k
    using that by (auto simp: X_line_def mat_of_cols_def less_Suc_eq numeral_3_eq_3)
  ultimately show ?thesis
    using assms by (simp add: d_line_def)
qed

lemma d_line_values:
  "d_line 0 0 = 0" "d_line 0 1 = 1" "d_line 0 2 = 5"
  "d_line 1 0 = 1" "d_line 1 1 = 0" "d_line 1 2 = 4"
  "d_line 2 0 = 5" "d_line 2 1 = 4" "d_line 2 2 = 0"
  by (simp_all add: d_line_def)

lemma build_step_pass_X_line:
  assumes "c < 3" "pc < 3" "length sample = 3" "pc < length refs" "refs ! pc < 3"
  shows "build_iteration_step manhattan X_line bd refs 3 True c pc (sigma, sample) =
           Inr (sigma, sample[pc := d_line c (refs ! pc)])"
  using manhattan_X_line_eq[OF assms(1,5)] assms(2,3,4)
  by (simp add: build_iteration_step_def vec_at_def vec_set_def)

lemma build_step_stddev:
  assumes "pc = B" "c < length sigma"
  shows "build_iteration_step loss_fn data bd refs B use_abs c pc (sigma, sample) =
           Inr (sigma[c := stddev sample], sample)"
  using assms by (simp add: build_iteration_step_def vec_set_def)

lemma stddev_values:
  "stddev [4, 1, 1] = sqrt 3" "stddev [5, 0, 1] = sqrt 7" "stddev [0, 5, 4] = sqrt 7"
  "stddev [4, 1, 0] = sqrt (13 / 3)"
  by (simp_all add: stddev_def arma_mean_def power2_eq_square)

lemma interleave_X_line:
  "build_interleave manhattan X_line [PInf, PInf, PInf] [2, 0, 1] 3 True
     [0, 0, 1, 1, 1, 0, 0] ([0, 0, 0], [9, 9, 9], [0, 0, 0]) =
   Inr ([4, 3, 0], [stddev [4, 1, 1], 9, 9], [4, 1, 1])"
  by (simp add: build_step_pass_X_line build_step_stddev d_line_def)

lemma build_sample_loop_X_line:
  assumes "c < 3" "j < length sample" "j < length refs" "refs ! j < 3"
  shows "build_sample_loop manhattan X_line bd refs True c (j # js) sample =
           build_sample_loop manhattan X_line bd refs True c js
             (sample[j := d_line c (refs ! j)])"
  using manhattan_X_line_eq[OF assms(1,4)] assms(2,3)
  by (simp add: vec_at_def vec_set_def)

lemma finish_X_line:
  "build_finish manhattan X_line [PInf, PInf, PInf] [2, 0, 1] 3 True [0, 1, 2]
     ([4, 3, 0], [s, 9, 9], [4, 1, 1]) =
   Inr ([4, 4, 4], [s, stddev [4, 1, 1], stddev [0, 5, 4]], [0, 5, 4])"
  by (simp add: build_sample_loop_X_line upt_rec vec_set_def d_line_def
      del: build_sample_loop.simps(2))

lemma finish_sequential_X_line:
  "build_finish manhattan X_line [PInf, PInf, PInf] [2, 0, 1] 3 True [0, 1, 2]
     ([0, 0, 0], [9, 9, 9], [0, 0, 0]) =
   Inr ([4, 4, 4], [stddev [5, 0, 1], stddev [4, 1, 0], stddev [0, 5, 4]], [0, 5, 4])"
  by (simp add: build_sample_loop_X_line upt_rec vec_set_def d_line_def
      del: build_sample_loop.simps(2))

lemma X_line_setup:
  "n_cols X_line = 3" "[0..<3] = [0, 1, 2]" "replicate 3 (0 :: nat) = [0, 0, 0]"
  "map zero_mem [0, 1, 2] = [0, 0, 0]" "draw_201 3 3 = Inr [2, 0, 1]"
  by (simp_all add: X_line_def mat_of_cols_def upt_rec numeral_3_eq_3 zero_mem_def
      draw_201_def)

text \<open>
  C5. \<open>build_sigma\<close> does not always set \<open>sigma(c)\<close> to the standard deviation of the
  reward values of candidate \<open>c\<close>: the candidate loop is a parallel loop whose
  iterations share the vector \<open>sample\<close>. On the three points of \<open>X_line\<close>, with the
  draw 2, 0, 1 and \<open>use_absolute\<close>, let candidate 0 make its first two passes, candidate
  1 its three passes, and candidate 0 then its third pass and its \<open>stddev\<close>: \<open>sample\<close>
  holds 4, 1, 1 and \<open>sigma(0)\<close> is \<open>sqrt 3\<close>. The values of candidate 0 are 5, 0, 1,
  with standard deviation \<open>sqrt 7\<close>, which is what the same call returns when the
  iterations run one after the other.
\<close>

theorem build_sigma_shared_sample:
  "build_sigma manhattan draw_201 zero_mem [0, 0, 1, 1, 1, 0, 0] X_line [PInf, PInf, PInf]
     [9, 9, 9] 3 True = Inr [sqrt 3, sqrt 3, sqrt 7] \<and>
   build_sigma manhattan draw_201 zero_mem [] X_line [PInf, PInf, PInf]
     [9, 9, 9] 3 True = Inr [sqrt 7, sqrt (13 / 3), sqrt 7] \<and>
   stddev (map (d_line 0) [2, 0, 1]) = sqrt 7 \<and>
   sqrt 3 \<noteq> sqrt 7"
proof -
  have a: "build_sigma manhattan draw_201 zero_mem [0, 0, 1, 1, 1, 0, 0] X_line
             [PInf, PInf, PInf] [9, 9, 9] 3 True = Inr [sqrt 3, sqrt 3, sqrt 7]"
    unfolding build_sigma_def X_line_setup
    by (simp only: interleave_X_line finish_X_line stddev_values sum.case prod.case
        list.distinct if_False)
  have b: "build_sigma manhattan draw_201 zero_mem [] X_line
             [PInf, PInf, PInf] [9, 9, 9] 3 True = Inr [sqrt 7, sqrt (13 / 3), sqrt 7]"
    unfolding build_sigma_def X_line_setup
    by (simp only: build_interleave.simps finish_sequential_X_line stddev_values sum.case
        prod.case list.distinct if_False)
  have c: "stddev (map (d_line 0) [2, 0, 1]) = sqrt 7"
    by (simp add: d_line_def stddev_values)
  show ?thesis
    using a b c by simp
qed

section \<open>The dispersion estimate of SWAP\<close>

lemma if_less_ext_min_real:
  "(if Fin c < e then Fin c else e) = Fin (ext_min_real c e)"
  by (cases e) (auto simp: min_def)

lemma swap_sample_loop_result:
  assumes "\<forall>j\<in>set js. j < length tmp_refs \<and> j < length sample \<and>
             loss_fn data n (tmp_refs ! j) = Inr (d n (tmp_refs ! j))"
    and "\<forall>r\<in>set tmp_refs. r < length bd \<and> bd ! r = Fin (db r) \<and> r < length sd \<and>
           r < length asg"
  shows "\<exists>sample'.
           swap_sample_loop loss_fn data bd sd asg tmp_refs n k js sample = Inr sample' \<and>
           length sample' = length sample \<and>
           (\<forall>j\<in>set js. sample' ! j = swap_reward d db sd asg k n (tmp_refs ! j)) \<and>
           (\<forall>j. j \<notin> set js \<longrightarrow> sample' ! j = sample ! j)"
  using assms(1)
proof (induction js arbitrary: sample)
  case Nil
  then show ?case by simp
next
  case (Cons j js)
  let ?ref = "tmp_refs ! j"
  let ?x = "swap_reward d db sd asg k n ?ref"
  have j: "j < length tmp_refs" "j < length sample"
    "loss_fn data n ?ref = Inr (d n ?ref)"
    using Cons.prems by simp_all
  then have "?ref \<in> set tmp_refs" by simp
  with assms(2) have b: "?ref < length bd" "bd ! ?ref = Fin (db ?ref)" "?ref < length sd"
    "?ref < length asg"
    by blast+
  have rest: "\<forall>j'\<in>set js. j' < length tmp_refs \<and> j' < length (sample[j := ?x]) \<and>
             loss_fn data n (tmp_refs ! j') = Inr (d n (tmp_refs ! j'))"
    using Cons.prems by simp
  have m: "(if d n ?ref < db ?ref then d n ?ref else db ?ref) = min (d n ?ref) (db ?ref)"
    by (simp add: min_def)
  have step: "swap_sample_loop loss_fn data bd sd asg tmp_refs n k (j # js) sample =
              swap_sample_loop loss_fn data bd sd asg tmp_refs n k js (sample[j := ?x])"
  proof (cases "k = asg ! ?ref")
    case True
    then show ?thesis
      using j b
      by (simp add: vec_at_def vec_set_def swap_reward_def if_less_ext_min_real)
  next
    case False
    then have "asg ! ?ref \<noteq> k" by simp
    then show ?thesis
      using False j b m by (simp add: vec_at_def vec_set_def swap_reward_def)
  qed
  from Cons.IH[OF rest] obtain sample' where
    r: "swap_sample_loop loss_fn data bd sd asg tmp_refs n k js (sample[j := ?x]) =
          Inr sample'"
    and l: "length sample' = length sample"
    and v: "\<forall>j'\<in>set js. sample' ! j' = swap_reward d db sd asg k n (tmp_refs ! j')"
    and o: "\<forall>j'. j' \<notin> set js \<longrightarrow> sample' ! j' = sample[j := ?x] ! j'"
    by auto
  have here: "sample' ! j = ?x"
    using v o j(2) by (cases "j \<in> set js") simp_all
  have other: "sample' ! j' = sample ! j'" if "j' \<notin> set (j # js)" for j'
    using that o by simp
  show ?case
    unfolding step using r l v here other by auto
qed

lemma swap_sample_loop_batch:
  assumes "length tmp_refs = batch_size" "length sample = batch_size"
    and "\<forall>r\<in>set tmp_refs. loss_fn data n r = Inr (d n r)"
    and "\<forall>r\<in>set tmp_refs. r < length bd \<and> bd ! r = Fin (db r) \<and> r < length sd \<and>
           r < length asg"
  shows "swap_sample_loop loss_fn data bd sd asg tmp_refs n k [0..<batch_size] sample =
         Inr (map (swap_reward d db sd asg k n) tmp_refs)"
proof -
  have "\<forall>j\<in>set [0..<batch_size]. j < length tmp_refs \<and> j < length sample \<and>
             loss_fn data n (tmp_refs ! j) = Inr (d n (tmp_refs ! j))"
    using assms(1,2,3) by simp
  from swap_sample_loop_result[where d = d and db = db and loss_fn = loss_fn
      and data = data and n = n and k = k, OF this assms(4)]
  obtain sample' where
    r: "swap_sample_loop loss_fn data bd sd asg tmp_refs n k [0..<batch_size] sample =
          Inr sample'"
    and l: "length sample' = length sample"
    and v: "\<forall>j\<in>set [0..<batch_size].
              sample' ! j = swap_reward d db sd asg k n (tmp_refs ! j)"
    by blast
  have "sample' = map (swap_reward d db sd asg k n) tmp_refs"
    using l v assms(1,2) by (intro nth_equalityI) simp_all
  with r show ?thesis by simp
qed

lemma flat_index_inj:
  assumes "i mod K = i' mod K" "i div K = i' div K"
  shows "i = (i' :: nat)"
  using assms by (metis div_mult_mod_eq)

lemma swap_finish_result:
  assumes "length tmp_refs = batch_size"
    and "\<forall>n<N. \<forall>r\<in>set tmp_refs. loss_fn data n r = Inr (d n r)"
    and "\<forall>r\<in>set tmp_refs. r < length bd \<and> bd ! r = Fin (db r) \<and> r < length sd \<and>
           r < length asg"
    and "length sample = batch_size"
    and "n_rows sigma = K" "N \<le> n_cols sigma"
    and "\<forall>i\<in>set ps. i < K * N \<and> i < length pcs \<and> pcs ! i = 0" "distinct ps"
  shows "\<exists>pcs' sigma' sample'.
           swap_finish loss_fn data bd sd asg tmp_refs batch_size K ps (pcs, sigma, sample) =
             Inr (pcs', sigma', sample') \<and>
           n_rows sigma' = n_rows sigma \<and> n_cols sigma' = n_cols sigma \<and>
           (\<forall>i\<in>set ps. mem sigma' (i mod K) (i div K) =
              stddev (map (swap_reward d db sd asg (i mod K) (i div K)) tmp_refs)) \<and>
           (\<forall>k n. (\<forall>i\<in>set ps. k \<noteq> i mod K \<or> n \<noteq> i div K) \<longrightarrow>
              mem sigma' k n = mem sigma k n)"
  using assms(4-8)
proof (induction ps arbitrary: pcs sigma sample)
  case Nil
  then show ?case by simp
next
  case (Cons i ps)
  let ?k = "i mod K" and ?n = "i div K"
  let ?s = "map (swap_reward d db sd asg ?k ?n) tmp_refs"
  have i: "i < K * N" "i < length pcs" "pcs ! i = 0" "i \<notin> set ps" "distinct ps"
    using Cons.prems by simp_all
  then have K: "0 < K" by (cases K) simp_all
  have n: "?n < N"
    using i(1) by (simp add: less_mult_imp_div_less mult.commute)
  have k: "?k < K" using K by simp
  have "\<forall>r\<in>set tmp_refs. loss_fn data ?n r = Inr (d ?n r)"
    using assms(2) n by simp
  from swap_sample_loop_batch[where d = d and db = db and loss_fn = loss_fn
      and data = data and n = ?n and k = ?k, OF assms(1) Cons.prems(1) this assms(3)]
  have s: "swap_sample_loop loss_fn data bd sd asg tmp_refs ?n ?k [pcs ! i..<batch_size]
             sample = Inr ?s"
    unfolding i(3) .
  let ?sigma1 = "sigma\<lparr>mem := (mem sigma)(?k := (mem sigma ?k)(?n := stddev ?s))\<rparr>"
  let ?pcs = "pcs[i := Suc batch_size]"
  have ms: "mat_set sigma ?k ?n (stddev ?s) = Inr ?sigma1"
    using k n Cons.prems(2,3) by (simp add: mat_set_def)
  have l: "length ?s = batch_size" using assms(1) by simp
  have d1: "n_rows ?sigma1 = K" "N \<le> n_cols ?sigma1"
    using Cons.prems(2,3) by simp_all
  have rest: "\<forall>i'\<in>set ps. i' < K * N \<and> i' < length ?pcs \<and> ?pcs ! i' = 0"
  proof
    fix i'
    assume m: "i' \<in> set ps"
    with i(4) have "i \<noteq> i'" by auto
    then have "?pcs ! i' = pcs ! i'" by simp
    with m Cons.prems(4) show "i' < K * N \<and> i' < length ?pcs \<and> ?pcs ! i' = 0"
      by simp
  qed
  from Cons.IH[OF l d1 rest i(5)] obtain pcs' sigma' sample' where
    r: "swap_finish loss_fn data bd sd asg tmp_refs batch_size K ps (?pcs, ?sigma1, ?s) =
          Inr (pcs', sigma', sample')"
    and dims: "n_rows sigma' = n_rows sigma" "n_cols sigma' = n_cols sigma"
    and v: "\<forall>i'\<in>set ps. mem sigma' (i' mod K) (i' div K) =
              stddev (map (swap_reward d db sd asg (i' mod K) (i' div K)) tmp_refs)"
    and o: "\<forall>k n. (\<forall>i'\<in>set ps. k \<noteq> i' mod K \<or> n \<noteq> i' div K) \<longrightarrow>
              mem sigma' k n = mem ?sigma1 k n"
    by auto
  have e: "swap_finish loss_fn data bd sd asg tmp_refs batch_size K (i # ps)
             (pcs, sigma, sample) = Inr (pcs', sigma', sample')"
    using s ms r i(3) by simp
  have "\<forall>i'\<in>set ps. ?k \<noteq> i' mod K \<or> ?n \<noteq> i' div K"
    using i(4) flat_index_inj[of i K] by blast
  with o have here: "mem sigma' ?k ?n = stddev ?s"
    by simp
  have other: "mem sigma' k' n' = mem sigma k' n'"
    if "\<forall>i'\<in>set (i # ps). k' \<noteq> i' mod K \<or> n' \<noteq> i' div K" for k' n'
  proof -
    from that have a: "\<forall>i'\<in>set ps. k' \<noteq> i' mod K \<or> n' \<noteq> i' div K"
      and b: "k' \<noteq> ?k \<or> n' \<noteq> ?n"
      by simp_all
    from o a have "mem sigma' k' n' = mem ?sigma1 k' n'" by blast
    also have "\<dots> = mem sigma k' n'" using b by auto
    finally show ?thesis .
  qed
  show ?case
    using e dims v here other by auto
qed

text \<open>
  When the iterations of the arm loop run one after the other (the empty schedule),
  \<open>sigma(k, n)\<close> is the sample standard deviation the specification describes, for
  every flat index \<open>i < K * N\<close> with \<open>k = i mod K\<close> and \<open>n = i div K\<close>.
\<close>

lemma swap_sigma_sequential:
  assumes "randperm (n_cols data) batch_size = Inr tmp_refs"
    and "length tmp_refs = batch_size"
    and "n_cols data \<le> n_cols sigma"
    and "\<forall>n<n_cols data. \<forall>r\<in>set tmp_refs. loss_fn data n r = Inr (d n r)"
    and "\<forall>r\<in>set tmp_refs. r < length best_distances \<and> best_distances ! r = Fin (db r) \<and>
           r < length second_best_distances \<and> r < length assignments"
  shows "\<exists>sigma'.
           swap_sigma loss_fn randperm sample_mem [] data sigma batch_size best_distances
             second_best_distances assignments = Inr sigma' \<and>
           n_rows sigma' = n_rows sigma \<and> n_cols sigma' = n_cols sigma \<and>
           (\<forall>i<n_rows sigma * n_cols data.
              mem sigma' (i mod n_rows sigma) (i div n_rows sigma) =
                stddev (map (\<lambda>j. (if assignments ! j = i mod n_rows sigma
                                   then ext_min_real (d (i div n_rows sigma) j)
                                          (second_best_distances ! j)
                                   else min (d (i div n_rows sigma) j) (db j)) - db j)
                          tmp_refs))"
proof -
  let ?K = "n_rows sigma" and ?N = "n_cols data"
  have l: "length (map sample_mem [0..<batch_size]) = batch_size" by simp
  have b: "\<forall>i\<in>set [0..<?K * ?N]. i < ?K * ?N \<and> i < length (replicate (?K * ?N) (0 :: nat)) \<and>
             replicate (?K * ?N) (0 :: nat) ! i = 0"
    by simp
  from swap_finish_result[where d = d and db = db and loss_fn = loss_fn
      and data = data and N = ?N and K = ?K and sigma = sigma,
      OF assms(2) assms(4) assms(5) l refl assms(3) b distinct_upt]
  obtain pcs' sigma' sample' where
    r: "swap_finish loss_fn data best_distances second_best_distances assignments
          tmp_refs batch_size ?K [0..<?K * ?N]
          (replicate (?K * ?N) 0, sigma, map sample_mem [0..<batch_size]) =
        Inr (pcs', sigma', sample')"
    and dims: "n_rows sigma' = n_rows sigma" "n_cols sigma' = n_cols sigma"
    and v: "\<forall>i\<in>set [0..<?K * ?N]. mem sigma' (i mod ?K) (i div ?K) =
              stddev (map (swap_reward d db second_best_distances assignments (i mod ?K)
                             (i div ?K)) tmp_refs)"
    by blast
  have e: "swap_sigma loss_fn randperm sample_mem [] data sigma batch_size best_distances
             second_best_distances assignments = Inr sigma'"
    using assms(1) r by (simp add: swap_sigma_def)
  have w: "swap_reward d db second_best_distances assignments k n =
             (\<lambda>j. (if assignments ! j = k
                    then ext_min_real (d n j) (second_best_distances ! j)
                    else min (d n j) (db j)) - db j)" for k n
    by (rule ext) (simp add: swap_reward_def)
  show ?thesis
    using e dims v unfolding w by auto
qed

lemma swap_sample_loop_line:
  assumes "j < 3" "length sample = 3" "n < 3"
  shows "swap_sample_loop manhattan X_line best_line second_line assign_line refs_line n k
           (j # js) sample =
         swap_sample_loop manhattan X_line best_line second_line assign_line refs_line n k
           js (sample[j := swap_reward d_line d1_line second_line assign_line k n
                              (refs_line ! j)])"
proof -
  have r: "refs_line ! j < 3"
    using assms(1) by (auto simp: refs_line_def less_Suc_eq numeral_3_eq_3)
  have b: "best_line ! r = Fin (d1_line r)" if "r < 3" for r
    using that by (auto simp: best_line_def d1_line_def less_Suc_eq numeral_3_eq_3)
  have m: "(if x < y then x else y) = min x (y :: real)" for x y
    by (simp add: min_def)
  have l: "length refs_line = 3" "length best_line = 3" "length second_line = 3"
    "length assign_line = 3"
    by (simp_all add: refs_line_def best_line_def second_line_def assign_line_def)
  show ?thesis
    using manhattan_X_line_eq[OF assms(3) r] assms(1,2) r b[OF r] l
    by (simp add: vec_at_def vec_set_def swap_reward_def if_less_ext_min_real m
        eq_commute[of k])
qed

lemma swap_step_pass_line:
  assumes "pc < 3" "length sample = 3" "i < 6"
  shows "swap_iteration_step manhattan X_line best_line second_line assign_line refs_line
           3 2 i pc (sigma, sample) =
         Inr (sigma, sample[pc := swap_reward d_line d1_line second_line assign_line
                                    (i mod 2) (i div 2) (refs_line ! pc)])"
proof -
  have n: "i div 2 < 3" using assms(3) by simp
  show ?thesis
    using assms(1) swap_sample_loop_line[OF assms(1,2) n]
    by (simp add: swap_iteration_step_def del: swap_sample_loop.simps(2))
qed

lemma swap_step_stddev:
  assumes "pc = B" "i mod K < n_rows sigma" "i div K < n_cols sigma"
  shows "swap_iteration_step loss_fn data bd sd asg refs B K i pc (sigma, sample) =
           Inr (sigma\<lparr>mem := (mem sigma)(i mod K := (mem sigma (i mod K))
                                     (i div K := stddev sample))\<rparr>, sample)"
  using assms by (simp add: swap_iteration_step_def mat_set_def)

lemma swap_reward_line_values:
  "map (swap_reward d_line d1_line second_line assign_line 0 0) refs_line = [0, 0, 0]"
  "map (swap_reward d_line d1_line second_line assign_line 1 0) refs_line = [5, 0, 0]"
  "map (swap_reward d_line d1_line second_line assign_line 0 1) refs_line = [0, 1, - 1]"
  "map (swap_reward d_line d1_line second_line assign_line 1 1) refs_line = [4, 0, - 1]"
  "map (swap_reward d_line d1_line second_line assign_line 0 2) refs_line = [0, 5, 3]"
  "map (swap_reward d_line d1_line second_line assign_line 1 2) refs_line = [0, 0, 0]"
  by (simp_all add: swap_reward_def d_line_def d1_line_def second_line_def assign_line_def
      refs_line_def)

lemma refs_line_nth:
  "refs_line ! 0 = 2" "refs_line ! Suc 0 = 0" "refs_line ! Suc (Suc 0) = Suc 0"
  by (simp_all add: refs_line_def)

lemma swap_interleave_line:
  assumes "n_rows sigma = 2" "n_cols sigma = 3"
  shows "swap_interleave manhattan X_line best_line second_line assign_line refs_line 3 2
           [2, 2, 3, 3, 3, 2, 2] ([0, 0, 0, 0, 0, 0], sigma, [0, 0, 0]) =
         Inr ([0, 0, 4, 3, 0, 0],
              sigma\<lparr>mem := (mem sigma)(0 := (mem sigma 0)(1 := stddev [4, 0, - 1]))\<rparr>,
              [4, 0, - 1])"
proof -
  have r: "refs_line ! 0 = 2" "refs_line ! Suc 0 = 0" "refs_line ! Suc (Suc 0) = Suc 0"
    by (simp_all add: refs_line_def)
  show ?thesis
    using assms swap_reward_line_values[unfolded refs_line_def] r
    by (simp add: swap_step_pass_line swap_step_stddev)
qed

lemma swap_finish_line:
  assumes "n_rows sigma = 2" "n_cols sigma = 3"
  shows "\<exists>pcs sigma' sample'.
           swap_finish manhattan X_line best_line second_line assign_line refs_line 3 2
             [0, 1, 2, 3, 4, 5] ([0, 0, 4, 3, 0, 0], sigma, [4, 0, - 1]) =
             Inr (pcs, sigma', sample') \<and>
           mem sigma' 0 1 = mem sigma 0 1"
  using assms swap_reward_line_values[unfolded refs_line_def] refs_line_nth
  by (simp add: swap_sample_loop_line upt_rec mat_set_def
      del: swap_sample_loop.simps(2))

lemma swap_finish_sequential_line:
  assumes "n_rows sigma = 2" "n_cols sigma = 3"
  shows "\<exists>pcs sigma' sample'.
           swap_finish manhattan X_line best_line second_line assign_line refs_line 3 2
             [0, 1, 2, 3, 4, 5] ([0, 0, 0, 0, 0, 0], sigma, [0, 0, 0]) =
             Inr (pcs, sigma', sample') \<and>
           mem sigma' 0 1 = stddev [0, 1, - 1]"
  using assms swap_reward_line_values[unfolded refs_line_def] refs_line_nth
  by (simp add: swap_sample_loop_line upt_rec mat_set_def
      del: swap_sample_loop.simps(2))

lemma line_setup:
  "n_rows sigma_2x3 = 2" "n_cols sigma_2x3 = 3" "draw_201 3 3 = Inr refs_line"
  "replicate (2 * 3) (0 :: nat) = [0, 0, 0, 0, 0, 0]" "[0..<2 * 3] = [0, 1, 2, 3, 4, 5]"
  by (simp_all add: sigma_2x3_def mat_of_cols_def draw_201_def refs_line_def upt_rec
      numeral_eq_Suc)

lemma stddev_values_swap:
  "stddev [4, 0, - 1] = sqrt 7" "stddev [0, 1, - 1] = 1"
  by (simp_all add: stddev_def arma_mean_def power2_eq_square)

text \<open>
  C4. \<open>swap_sigma\<close> does not always set \<open>sigma(k, n')\<close> to the standard deviation of the
  samples \<open>\<phi> - d1[j]\<close> of the arm: the loop over the flat indices is a parallel loop
  whose iterations share the vector \<open>sample\<close>. With \<open>K = 2\<close> on the three points of
  \<open>X_line\<close>, let the flat index 2 (arm \<open>k = 0\<close>, \<open>n' = 1\<close>) make its first two passes,
  the flat index 3 its three passes, and index 2 then its third pass and its \<open>stddev\<close>:
  \<open>sigma(0, 1)\<close> is \<open>sqrt 7\<close>. The samples of the arm are 0, 1, -1, with standard
  deviation 1, which is what the same call returns when the iterations run one after
  the other.
\<close>

theorem swap_sigma_shared_sample:
  "sigma_entry 0 1
     (swap_sigma manhattan draw_201 zero_mem [2, 2, 3, 3, 3, 2, 2] X_line sigma_2x3 3
        best_line second_line assign_line) = Inr (sqrt 7) \<and>
   sigma_entry 0 1
     (swap_sigma manhattan draw_201 zero_mem [] X_line sigma_2x3 3
        best_line second_line assign_line) = Inr 1 \<and>
   stddev (map (swap_reward d_line d1_line second_line assign_line 0 1) refs_line) = 1 \<and>
   sqrt 7 \<noteq> 1"
proof -
  let ?s1 = "sigma_2x3\<lparr>mem := (mem sigma_2x3)(0 := (mem sigma_2x3 0)
                                   (1 := stddev [4, 0, - 1]))\<rparr>"
  have d: "n_rows ?s1 = 2" "n_cols ?s1 = 3"
    by (simp_all add: line_setup)
  from swap_finish_line[OF d] obtain pcs sigma' sample' where
    f: "swap_finish manhattan X_line best_line second_line assign_line refs_line 3 2
          [0, 1, 2, 3, 4, 5] ([0, 0, 4, 3, 0, 0], ?s1, [4, 0, - 1]) =
        Inr (pcs, sigma', sample')"
    and v: "mem sigma' 0 1 = mem ?s1 0 1"
    by blast
  have "swap_sigma manhattan draw_201 zero_mem [2, 2, 3, 3, 3, 2, 2] X_line sigma_2x3 3
          best_line second_line assign_line = Inr sigma'"
    unfolding swap_sigma_def X_line_setup(1,2,4) line_setup
    by (simp only: swap_interleave_line[OF line_setup(1,2)] f sum.case prod.case)
  then have a: "sigma_entry 0 1
     (swap_sigma manhattan draw_201 zero_mem [2, 2, 3, 3, 3, 2, 2] X_line sigma_2x3 3
        best_line second_line assign_line) = Inr (sqrt 7)"
    using v by (simp add: sigma_entry_def stddev_values_swap)
  from swap_finish_sequential_line[OF line_setup(1,2)] obtain pcs2 sigma2 sample2 where
    f2: "swap_finish manhattan X_line best_line second_line assign_line refs_line 3 2
          [0, 1, 2, 3, 4, 5] ([0, 0, 0, 0, 0, 0], sigma_2x3, [0, 0, 0]) =
        Inr (pcs2, sigma2, sample2)"
    and v2: "mem sigma2 0 1 = stddev [0, 1, - 1]"
    by blast
  have "swap_sigma manhattan draw_201 zero_mem [] X_line sigma_2x3 3
          best_line second_line assign_line = Inr sigma2"
    unfolding swap_sigma_def X_line_setup(1,2,4) line_setup
    by (simp only: swap_interleave.simps f2 sum.case prod.case)
  then have b: "sigma_entry 0 1
     (swap_sigma manhattan draw_201 zero_mem [] X_line sigma_2x3 3
        best_line second_line assign_line) = Inr 1"
    using v2 by (simp add: sigma_entry_def stddev_values_swap)
  have c: "stddev (map (swap_reward d_line d1_line second_line assign_line 0 1) refs_line) = 1"
    by (simp only: swap_reward_line_values stddev_values_swap)
  show ?thesis
    using a b c by simp
qed


section \<open>Self-distance and symmetry of the loss functions\<close>

text \<open>
  The four loss functions are symmetric. \<open>manhattan\<close>, \<open>LP\<close> (for \<open>lp > 0\<close>) and \<open>LINF\<close>
  (for a matrix with at least one row) give 0 from a point to itself.
\<close>

lemma col_length: "col data i = Inr x \<Longrightarrow> length x = n_rows data"
  by (auto simp: col_def split: if_splits)

lemma abs_vec_minus_commute: "arma_abs (vec_minus x y) = arma_abs (vec_minus y x)"
proof (induction x arbitrary: y)
  case Nil
  then show ?case by (simp add: arma_abs_def vec_minus_def)
next
  case (Cons a x)
  then show ?case
    by (cases y) (simp_all add: arma_abs_def vec_minus_def abs_minus_commute)
qed

lemma vec_norm_k_abs: "vec_norm_k v p = root p (\<Sum>x\<leftarrow>arma_abs v. x ^ p)"
  by (simp add: vec_norm_k_def arma_abs_def comp_def)

lemma vec_minus_Nil_commute: "(vec_minus x y = []) = (vec_minus y x = [])"
  by (cases x; cases y) (simp_all add: vec_minus_def)

lemma arma_norm_minus_commute: "arma_norm (vec_minus x y) p = arma_norm (vec_minus y x) p"
  using vec_minus_Nil_commute[of x y]
  by (simp add: arma_norm_def vec_norm_k_abs abs_vec_minus_commute)

lemma LP_symmetric: "LP p data i j = LP p data j i"
  by (simp add: LP_def col_def arma_norm_minus_commute)

lemma manhattan_symmetric: "manhattan data i j = manhattan data j i"
  by (simp add: manhattan_def col_def abs_vec_minus_commute)

lemma LINF_symmetric: "LINF data i j = LINF data j i"
  by (simp add: LINF_def col_def abs_vec_minus_commute)

lemma arma_dot_commute: "arma_dot x y = arma_dot y x"
proof (induction x arbitrary: y)
  case Nil
  then show ?case by (simp add: arma_dot_def)
next
  case (Cons a x)
  then show ?case
    by (cases y) (simp_all add: arma_dot_def mult.commute)
qed

lemma cos_loss_symmetric: "cos_loss data i j = cos_loss data j i"
  by (simp add: cos_loss_def col_def arma_dot_commute mult.commute)

lemma vec_minus_self: "vec_minus x x = replicate (length x) 0"
  by (induction x) (simp_all add: vec_minus_def)

lemma sum_list_replicate_0: "sum_list (replicate n (0 :: real)) = 0"
  by (induction n) simp_all

lemma manhattan_self: "i < n_cols data \<Longrightarrow> manhattan data i i = Inr 0"
  by (simp add: manhattan_def col_def vec_minus_self arma_abs_def arma_accu_def
      sum_list_replicate_0)

lemma LP_self:
  assumes "i < n_cols data" "0 < p"
  shows "LP p data i i = Inr 0"
proof -
  have "(\<Sum>x\<leftarrow>replicate n (0 :: real). \<bar>x\<bar> ^ p) = 0" for n
    using assms(2) by (induction n) simp_all
  then show ?thesis
    using assms by (simp add: LP_def col_def vec_minus_self arma_norm_def vec_norm_k_def)
qed

lemma LINF_self:
  assumes "i < n_cols data" "0 < n_rows data"
  shows "LINF data i i = Inr 0"
  using assms
  by (simp add: LINF_def col_def vec_minus_self arma_abs_def arma_max_def)

text \<open>
  C7. The distance from a point to itself is not 0 for the \<open>cos\<close> loss: for the point
  \<open>(3, 4)\<close> the function returns 1.
\<close>

theorem cos_loss_self_distance:
  "cos_loss X_34 0 0 = Inr 1 \<and> cos_loss X_34 0 0 \<noteq> Inr 0"
  by (simp add: cos_loss_def col_def X_34_def mat_of_cols_def vec_norm_k_def arma_dot_def
      sqrt_def[symmetric] upt_rec sqrt_25)

end
